(* ===== verification/Krg_Prelude.thy ===== *)
theory Krg_Prelude
  imports Main "HOL-Library.Word" "HOL-Library.State_Monad" "HOL-Library.Monad_Syntax"
begin

text \<open>
  Shared vocabulary of the development: the state monad in which the C functions are written,
  the two loop shapes of the sources (a counted loop with an accumulator, a search with an early
  return), C integer narrowing, and the order-theoretic function \<open>next_in\<close> that the node
  iterators of libhotplug compute.  Nothing in this theory models a line of the sources; it is
  the library the component theories rest on.
\<close>

named_theorems run_simps \<open>symbolic execution of monadic C functions\<close>
named_theorems env_simps \<open>answers of an environment that satisfies a named hypothesis\<close>

section \<open>The state monad\<close>

abbreviation return :: "'a \<Rightarrow> ('s, 'a) state" where
  "return \<equiv> State_Monad.return"

definition gets :: "('s \<Rightarrow> 'a) \<Rightarrow> ('s, 'a) state" where
  "gets f = State (\<lambda>s. (f s, s))"

definition modify :: "('s \<Rightarrow> 's) \<Rightarrow> ('s, unit) state" where
  "modify f = State (\<lambda>s. ((), f s))"

lemma run_gets [simp]: "run_state (gets f) s = (f s, s)"
  by (simp add: gets_def)

lemma run_modify [simp]: "run_state (modify f) s = ((), f s)"
  by (simp add: modify_def)

lemma run_if [simp]: "run_state (if b then m else n) s = (if b then run_state m s else run_state n s)"
  by simp

section \<open>Loops\<close>

text \<open>
  \<open>foldM\<close> is the loop \<^verbatim>\<open>for (x in xs) acc = body(acc, x)\<close>; \<open>firstM\<close> is the loop
  \<^verbatim>\<open>for (x in xs) if (test(x)) return x\<close>.  A counted loop \<^verbatim>\<open>for (i = a; i < b; i++)\<close> runs
  over the list \<open>[a..b - 1]\<close>.
\<close>

primrec foldM :: "('b \<Rightarrow> 'a \<Rightarrow> ('s, 'b) state) \<Rightarrow> 'b \<Rightarrow> 'a list \<Rightarrow> ('s, 'b) state" where
  "foldM f acc [] = return acc"
| "foldM f acc (x # xs) = do { acc' \<leftarrow> f acc x; foldM f acc' xs }"

primrec firstM :: "('a \<Rightarrow> ('s, bool) state) \<Rightarrow> 'a list \<Rightarrow> ('s, 'a option) state" where
  "firstM p [] = return None"
| "firstM p (x # xs) = do { b \<leftarrow> p x; if b then return (Some x) else firstM p xs }"

primrec forM :: "('a \<Rightarrow> ('s, unit) state) \<Rightarrow> 'a list \<Rightarrow> ('s, unit) state" where
  "forM f [] = return ()"
| "forM f (x # xs) = do { f x; forM f xs }"

lemma run_foldM_pure:
  assumes "\<And>acc x. x \<in> set xs \<Longrightarrow> run_state (f acc x) s = (g acc x, s)"
  shows "run_state (foldM f acc xs) s = (foldl g acc xs, s)"
  using assms by (induction xs arbitrary: acc) auto

lemma run_foldM_inv:
  assumes "\<And>acc x. P acc \<Longrightarrow> x \<in> set xs \<Longrightarrow> run_state (f acc x) s = (g acc x, s) \<and> P (g acc x)"
    and "P acc"
  shows "run_state (foldM f acc xs) s = (foldl g acc xs, s) \<and> P (foldl g acc xs)"
  using assms by (induction xs arbitrary: acc) auto

lemma run_firstM_pure:
  assumes "\<And>x. x \<in> set xs \<Longrightarrow> run_state (p x) s = (q x, s)"
  shows "run_state (firstM p xs) s = (List.find q xs, s)"
  using assms by (induction xs) auto

lemma foldM_append:
  "foldM f acc (xs @ ys) = do { acc' \<leftarrow> foldM f acc xs; foldM f acc' ys }"
  by (induction xs arbitrary: acc) (auto intro: state_ext)

lemma run_foldM_Cons:
  "run_state (f acc x) s = (acc', s') \<Longrightarrow> run_state (foldM f acc (x # xs)) s = run_state (foldM f acc' xs) s'"
  by simp

text \<open>The rule for counted loops: an invariant of the elements done, the accumulator and the state.\<close>

lemma foldM_inv:
  assumes step: "\<And>ys x zs acc s. xs = ys @ x # zs \<Longrightarrow> I ys acc s \<Longrightarrow>
      \<exists>acc' s'. run_state (f acc x) s = (acc', s') \<and> I (ys @ [x]) acc' s'"
    and init: "I [] acc s"
  shows "\<exists>acc' s'. run_state (foldM f acc xs) s = (acc', s') \<and> I xs acc' s'"
proof -
  have "\<exists>acc' s'. run_state (foldM f acc zs) s = (acc', s') \<and> I xs acc' s'"
    if "xs = ys @ zs" "I ys acc s" for ys zs acc s
    using that
  proof (induction zs arbitrary: ys acc s)
    case Nil
    then show ?case by simp
  next
    case (Cons z zs)
    obtain acc1 s1 where 1: "run_state (f acc z) s = (acc1, s1)" "I (ys @ [z]) acc1 s1"
      using step [OF Cons.prems] by blast
    show ?case
      using Cons.IH [OF _ 1(2)] Cons.prems(1) run_foldM_Cons [of f acc z s acc1 s1 zs, OF 1(1)] by simp
  qed
  from this [of "[]"] init show ?thesis by simp
qed

section \<open>C integers\<close>

text \<open>
  A C \<^verbatim>\<open>int\<close> or \<^verbatim>\<open>long\<close> is an \<open>int\<close>; the implicit conversions of the sources that can lose
  bits (\<^verbatim>\<open>long\<close> to \<^verbatim>\<open>int\<close>, \<^verbatim>\<open>int\<close> to \<^verbatim>\<open>short\<close>) are written out.
\<close>

definition to_int :: "int \<Rightarrow> int" where
  "to_int x = sint (word_of_int x :: 32 word)"

definition to_short :: "int \<Rightarrow> int" where
  "to_short x = sint (word_of_int x :: 16 word)"

abbreviation (input) INT_MIN :: int where "INT_MIN \<equiv> - (2 ^ 31)"
abbreviation (input) INT_MAX :: int where "INT_MAX \<equiv> 2 ^ 31 - 1"
abbreviation (input) LONG_MIN :: int where "LONG_MIN \<equiv> - (2 ^ 63)"
abbreviation (input) LONG_MAX :: int where "LONG_MAX \<equiv> 2 ^ 63 - 1"

lemma to_int_id: "INT_MIN \<le> x \<Longrightarrow> x \<le> INT_MAX \<Longrightarrow> to_int x = x"
  by (simp add: to_int_def sint_sbintrunc' signed_take_bit_int_eq_self)

lemma to_short_id: "- (2 ^ 15) \<le> x \<Longrightarrow> x \<le> 2 ^ 15 - 1 \<Longrightarrow> to_short x = x"
  by (simp add: to_short_def sint_sbintrunc' signed_take_bit_int_eq_self)

lemma to_int_range: "INT_MIN \<le> to_int x \<and> to_int x \<le> INT_MAX"
  using sint_greater_eq [of "word_of_int x :: 32 word"] sint_less [of "word_of_int x :: 32 word"]
  by (simp add: to_int_def)

section \<open>The successor of a number in a finite set\<close>

definition next_in :: "int set \<Rightarrow> int \<Rightarrow> int" where
  "next_in A n = (if \<exists>x\<in>A. n < x then Min {x \<in> A. n < x} else -1)"

lemma next_in_none: "\<not> (\<exists>x\<in>A. n < x) \<Longrightarrow> next_in A n = -1"
  by (simp add: next_in_def)

lemma next_in_least:
  assumes "finite A" and "x \<in> A" and "n < x" and "\<And>y. y \<in> A \<Longrightarrow> n < y \<Longrightarrow> x \<le> y"
  shows "next_in A n = x"
proof -
  have "Min {x \<in> A. n < x} = x"
    using assms by (intro Min_eqI) auto
  then show ?thesis using assms by (auto simp: next_in_def)
qed

lemma next_in_mem:
  assumes "finite A" and "A \<subseteq> {0..}" and "next_in A n \<noteq> -1"
  shows "next_in A n \<in> A \<and> n < next_in A n \<and> (\<forall>y\<in>A. n < y \<longrightarrow> next_in A n \<le> y)"
proof -
  have ex: "\<exists>x\<in>A. n < x" using assms(3) by (auto simp: next_in_def split: if_splits)
  have fin: "finite {x \<in> A. n < x}" using assms(1) by simp
  have "Min {x \<in> A. n < x} \<in> {x \<in> A. n < x}"
    using fin ex by (intro Min_in) auto
  then show ?thesis using fin ex by (auto simp: next_in_def)
qed

lemma find_upto_next_in:
  "(case List.find P [n + 1..m - 1] of None \<Rightarrow> -1 | Some x \<Rightarrow> x) = next_in {x. n < x \<and> x < m \<and> P x} n"
proof (cases "List.find P [n + 1..m - 1]")
  case None
  then have "\<not> (\<exists>x. n < x \<and> x < m \<and> P x)" by (auto simp: find_None_iff)
  then show ?thesis using None by (auto simp: next_in_def)
next
  case (Some x)
  then obtain i where i: "i < length [n + 1..m - 1]" "P ([n + 1..m - 1] ! i)"
      "x = [n + 1..m - 1] ! i" "\<forall>j<i. \<not> P ([n + 1..m - 1] ! j)"
    by (auto simp: find_Some_iff)
  then have x: "x = n + 1 + int i" "int i < m - 1 - n" by auto
  have "next_in {x. n < x \<and> x < m \<and> P x} n = x"
  proof (rule next_in_least)
    show "finite {x. n < x \<and> x < m \<and> P x}"
      by (rule finite_subset [of _ "{n..m}"]) auto
    show "x \<in> {x. n < x \<and> x < m \<and> P x}" using x i by auto
    show "n < x" using x by simp
    fix y assume y: "y \<in> {x. n < x \<and> x < m \<and> P x}" "n < y"
    show "x \<le> y"
    proof (rule ccontr)
      assume "\<not> x \<le> y"
      then have "nat (y - n - 1) < i" using x y by auto
      moreover have "[n + 1..m - 1] ! nat (y - n - 1) = y" using y by simp
      ultimately show False using i(4) y by auto
    qed
  qed
  then show ?thesis using Some by simp
qed

end
