(* ===== verification/Kernel_ABI.thy ===== *)
theory Kernel_ABI
  imports Krg_Prelude
begin

text \<open>
  The binary interface between the tools and the Kerrighed kernel: the C structures of
  \<^verbatim>\<open>libs/include\<close> (\<^verbatim>\<open>types.h\<close>, \<^verbatim>\<open>krgnodemask.h\<close>, \<^verbatim>\<open>capabilities.h\<close>, \<^verbatim>\<open>migration.h\<close>,
  \<^verbatim>\<open>checkpoint.h\<close>, \<^verbatim>\<open>hotplug.h\<close>) and the service numbers of \<^verbatim>\<open>kerrighed_tools.h\<close>.  Bit vectors are
  words of their C width, other integers are \<open>int\<close>.  The lemmas show that the ioctl numbers of
  the services are pairwise distinct, so that the kernel can tell the services apart.
\<close>

unbundle bit_operations_syntax

section \<open>Structures\<close>

text \<open>\<^verbatim>\<open>enum krg_status\<close>; its values are the bytes of a \<^verbatim>\<open>krg_nodes\<close> table.\<close>

datatype krg_status =
    HOTPLUG_NODE_INVALID
  | HOTPLUG_NODE_POSSIBLE
  | HOTPLUG_NODE_PRESENT
  | HOTPLUG_NODE_ONLINE

fun status_code :: "krg_status \<Rightarrow> int" where
  "status_code HOTPLUG_NODE_INVALID = 0"
| "status_code HOTPLUG_NODE_POSSIBLE = 1"
| "status_code HOTPLUG_NODE_PRESENT = 2"
| "status_code HOTPLUG_NODE_ONLINE = 3"

lemma status_code_inj [simp]: "status_code a = status_code b \<longleftrightarrow> a = b"
  by (cases a; cases b) simp_all

text \<open>A \<^verbatim>\<open>krgnodemask_t\<close>: the array \<^verbatim>\<open>bits\<close> of \<^verbatim>\<open>unsigned long\<close> (64 bits on LP64).\<close>

definition KERRIGHED_HARD_MAX_NODES :: int where
  "KERRIGHED_HARD_MAX_NODES = 256"

definition LONGS_PER_KRGNODEMASK :: nat where
  "LONGS_PER_KRGNODEMASK = nat (KERRIGHED_HARD_MAX_NODES div 64)"

type_synonym krgnodemask = "64 word list"

record hotplug_node_set =
  hns_subclusterid :: int
  hns_v :: krgnodemask

datatype cap =
    CAP_CHANGE_KERRIGHED_CAP
  | CAP_CAN_MIGRATE
  | CAP_DISTANT_FORK
  | CAP_FORK_DELAY
  | CAP_CHECKPOINTABLE
  | CAP_USE_REMOTE_MEMORY
  | CAP_USE_INTRA_CLUSTER_KERSTREAMS
  | CAP_USE_INTER_CLUSTER_KERSTREAMS
  | CAP_USE_WORLD_VISIBLE_KERSTREAMS
  | CAP_SEE_LOCAL_PROC_STAT
  | CAP_DEBUG
  | CAP_SYSCALL_EXIT_HOOK

fun cap_code :: "cap \<Rightarrow> nat" where
  "cap_code CAP_CHANGE_KERRIGHED_CAP = 0"
| "cap_code CAP_CAN_MIGRATE = 1"
| "cap_code CAP_DISTANT_FORK = 2"
| "cap_code CAP_FORK_DELAY = 3"
| "cap_code CAP_CHECKPOINTABLE = 4"
| "cap_code CAP_USE_REMOTE_MEMORY = 5"
| "cap_code CAP_USE_INTRA_CLUSTER_KERSTREAMS = 6"
| "cap_code CAP_USE_INTER_CLUSTER_KERSTREAMS = 7"
| "cap_code CAP_USE_WORLD_VISIBLE_KERSTREAMS = 8"
| "cap_code CAP_SEE_LOCAL_PROC_STAT = 9"
| "cap_code CAP_DEBUG = 10"
| "cap_code CAP_SYSCALL_EXIT_HOOK = 11"

definition CAP_SIZE :: nat where
  "CAP_SIZE = 12"

record krg_cap_t =
  krg_cap_effective :: "32 word"
  krg_cap_permitted :: "32 word"
  krg_cap_inheritable_permitted :: "32 word"
  krg_cap_inheritable_effective :: "32 word"

text \<open>
  \<^verbatim>\<open>migration_infos_t\<close>: the node is a \<^verbatim>\<open>kerrighed_node_t\<close>, that is a \<^verbatim>\<open>short\<close>; the union of the
  two pid members is one field.
\<close>

record migration_infos =
  destination_node_id :: int
  process_to_migrate :: int

record checkpoint_info =
  ci_app_id :: int
  ci_flags :: "32 word"
  ci_chkpt_sn :: int
  ci_result :: int
  ci_signal :: int

definition APP_FROM_PID :: "32 word" where "APP_FROM_PID = 1"
definition CKPT_W_UNSUPPORTED_FILE :: "32 word" where "CKPT_W_UNSUPPORTED_FILE = 2"
definition APP_REPLACE_PGRP_SID :: "32 word" where "APP_REPLACE_PGRP_SID = 1"

definition E_CR_APPBUSY :: int where "E_CR_APPBUSY = 1000"
definition E_CR_PIDBUSY :: int where "E_CR_PIDBUSY = 1001"
definition E_CR_TASKDEAD :: int where "E_CR_TASKDEAD = 1002"
definition E_CR_BADDATA :: int where "E_CR_BADDATA = 1003"

record cr_subst_file =
  sf_fd :: int
  sf_file_id :: string

text \<open>\<open>None\<close> in \<open>sa_files\<close> is the null pointer.\<close>

record cr_subst_files_array =
  sa_nr :: nat
  sa_files :: "cr_subst_file list option"

record restart_request =
  rr_app_id :: int
  rr_chkpt_sn :: int
  rr_flags :: "32 word"
  rr_root_pid :: int
  rr_substitution :: cr_subst_files_array

record app_userdata_request =
  ur_app_id :: int
  ur_flags :: "32 word"
  ur_user_data :: "64 word"

text \<open>A \<^verbatim>\<open>cr_mm_region\<close>; the kernel walks the \<^verbatim>\<open>next\<close> chain, so a request carries the list.\<close>

record cr_mm_region =
  mr_pid :: int
  mr_addr :: "64 word"
  mr_size :: "64 word"

section \<open>Services\<close>

text \<open>
  The services of \<^verbatim>\<open>kerrighed_tools.h\<close>.  \<^verbatim>\<open>KSYS_CHANGE_MAP_LOCAL_VALUE\<close> is left out: its argument
  type is declared nowhere in the sources and no code uses it.
\<close>

datatype ksys =
    KSYS_SET_CAP | KSYS_GET_CAP | KSYS_SET_PID_CAP | KSYS_GET_PID_CAP
  | KSYS_SET_FATHER_CAP | KSYS_GET_FATHER_CAP
  | KSYS_NB_MAX_NODES | KSYS_NB_MAX_CLUSTERS | KSYS_GET_SUPPORTED_CAP
  | KSYS_GET_NODE_ID | KSYS_GET_NODES_COUNT
  | KSYS_HOTPLUG_RESTART | KSYS_HOTPLUG_SHUTDOWN | KSYS_HOTPLUG_REBOOT | KSYS_HOTPLUG_STATUS
  | KSYS_HOTPLUG_ADD | KSYS_HOTPLUG_REMOVE | KSYS_HOTPLUG_FAIL | KSYS_HOTPLUG_NODES
  | KSYS_HOTPLUG_POWEROFF | KSYS_HOTPLUG_SET_CREATOR | KSYS_HOTPLUG_READY
  | KSYS_PROCESS_MIGRATION | KSYS_THREAD_MIGRATION
  | KSYS_APP_FREEZE | KSYS_APP_UNFREEZE | KSYS_APP_CHKPT | KSYS_APP_RESTART
  | KSYS_APP_SET_USERDATA | KSYS_APP_GET_USERDATA
  | KSYS_APP_CR_DISABLE | KSYS_APP_CR_ENABLE | KSYS_APP_CR_EXCLUDE
  | KSYS_IPC_MSGQ_CHKPT | KSYS_IPC_MSGQ_RESTART | KSYS_IPC_SEM_CHKPT | KSYS_IPC_SEM_RESTART
  | KSYS_IPC_SHM_CHKPT | KSYS_IPC_SHM_RESTART

text \<open>
  The direction, number and argument size of each service, as the \<^verbatim>\<open>_IO\<close> macros receive them.
  The sizes are those of the LP64 data model.
\<close>

definition TOOLS_PROC_BASE :: nat where "TOOLS_PROC_BASE = 0"
definition COMM_PROC_BASE :: nat where "COMM_PROC_BASE = 32"
definition EPM_PROC_BASE :: nat where "EPM_PROC_BASE = 192"
definition IPC_PROC_BASE :: nat where "IPC_PROC_BASE = 224"
definition KERRIGHED_PROC_MAGIC :: nat where "KERRIGHED_PROC_MAGIC = 209"

lemmas base_defs = TOOLS_PROC_BASE_def COMM_PROC_BASE_def EPM_PROC_BASE_def IPC_PROC_BASE_def

datatype io_dir = IO | IOW | IOR | IOWR

fun ksys_number :: "ksys \<Rightarrow> io_dir \<times> nat \<times> nat" where
  "ksys_number KSYS_SET_CAP = (IOW, TOOLS_PROC_BASE + 0, 16)"
| "ksys_number KSYS_GET_CAP = (IOR, TOOLS_PROC_BASE + 1, 16)"
| "ksys_number KSYS_SET_PID_CAP = (IOW, TOOLS_PROC_BASE + 2, 16)"
| "ksys_number KSYS_GET_PID_CAP = (IOR, TOOLS_PROC_BASE + 3, 16)"
| "ksys_number KSYS_SET_FATHER_CAP = (IOW, TOOLS_PROC_BASE + 4, 16)"
| "ksys_number KSYS_GET_FATHER_CAP = (IOR, TOOLS_PROC_BASE + 5, 16)"
| "ksys_number KSYS_NB_MAX_NODES = (IOR, TOOLS_PROC_BASE + 6, 4)"
| "ksys_number KSYS_NB_MAX_CLUSTERS = (IOR, TOOLS_PROC_BASE + 7, 4)"
| "ksys_number KSYS_GET_SUPPORTED_CAP = (IOR, TOOLS_PROC_BASE + 8, 4)"
| "ksys_number KSYS_GET_NODE_ID = (IOR, COMM_PROC_BASE + 0, 4)"
| "ksys_number KSYS_GET_NODES_COUNT = (IOR, COMM_PROC_BASE + 1, 4)"
| "ksys_number KSYS_HOTPLUG_RESTART = (IOW, COMM_PROC_BASE + 4, 32)"
| "ksys_number KSYS_HOTPLUG_SHUTDOWN = (IOW, COMM_PROC_BASE + 5, 32)"
| "ksys_number KSYS_HOTPLUG_REBOOT = (IOW, COMM_PROC_BASE + 6, 32)"
| "ksys_number KSYS_HOTPLUG_STATUS = (IOR, COMM_PROC_BASE + 7, 256)"
| "ksys_number KSYS_HOTPLUG_ADD = (IOW, COMM_PROC_BASE + 8, 40)"
| "ksys_number KSYS_HOTPLUG_REMOVE = (IOW, COMM_PROC_BASE + 9, 40)"
| "ksys_number KSYS_HOTPLUG_FAIL = (IOW, COMM_PROC_BASE + 10, 40)"
| "ksys_number KSYS_HOTPLUG_NODES = (IOWR, COMM_PROC_BASE + 11, 8)"
| "ksys_number KSYS_HOTPLUG_POWEROFF = (IOW, COMM_PROC_BASE + 12, 40)"
| "ksys_number KSYS_HOTPLUG_SET_CREATOR = (IO, COMM_PROC_BASE + 14, 0)"
| "ksys_number KSYS_HOTPLUG_READY = (IO, COMM_PROC_BASE + 15, 0)"
| "ksys_number KSYS_PROCESS_MIGRATION = (IOW, EPM_PROC_BASE + 0, 8)"
| "ksys_number KSYS_THREAD_MIGRATION = (IOW, EPM_PROC_BASE + 1, 8)"
| "ksys_number KSYS_APP_FREEZE = (IOW, EPM_PROC_BASE + 2, 24)"
| "ksys_number KSYS_APP_UNFREEZE = (IOW, EPM_PROC_BASE + 3, 24)"
| "ksys_number KSYS_APP_CHKPT = (IOW, EPM_PROC_BASE + 4, 24)"
| "ksys_number KSYS_APP_RESTART = (IOW, EPM_PROC_BASE + 5, 40)"
| "ksys_number KSYS_APP_SET_USERDATA = (IOW, EPM_PROC_BASE + 6, 8)"
| "ksys_number KSYS_APP_GET_USERDATA = (IOW, EPM_PROC_BASE + 7, 24)"
| "ksys_number KSYS_APP_CR_DISABLE = (IO, EPM_PROC_BASE + 8, 0)"
| "ksys_number KSYS_APP_CR_ENABLE = (IO, EPM_PROC_BASE + 9, 0)"
| "ksys_number KSYS_APP_CR_EXCLUDE = (IOW, EPM_PROC_BASE + 10, 32)"
| "ksys_number KSYS_IPC_MSGQ_CHKPT = (IOW, IPC_PROC_BASE + 0, 8)"
| "ksys_number KSYS_IPC_MSGQ_RESTART = (IOW, IPC_PROC_BASE + 1, 4)"
| "ksys_number KSYS_IPC_SEM_CHKPT = (IOW, IPC_PROC_BASE + 2, 8)"
| "ksys_number KSYS_IPC_SEM_RESTART = (IOW, IPC_PROC_BASE + 3, 4)"
| "ksys_number KSYS_IPC_SHM_CHKPT = (IOW, IPC_PROC_BASE + 4, 8)"
| "ksys_number KSYS_IPC_SHM_RESTART = (IOW, IPC_PROC_BASE + 5, 4)"

text \<open>
  The \<^verbatim>\<open>_IOC\<close> encoding of the standard header: number in bits 0..7, magic in bits 8..15, size in
  bits 16..29, direction in bits 30..31.
\<close>

fun dir_code :: "io_dir \<Rightarrow> 32 word" where
  "dir_code IO = 0" | "dir_code IOW = 1" | "dir_code IOR = 2" | "dir_code IOWR = 3"

definition ioctl_number :: "ksys \<Rightarrow> 32 word" where
  "ioctl_number k = (case ksys_number k of (d, nr, sz) \<Rightarrow>
     push_bit 30 (dir_code d) OR push_bit 8 (of_nat KERRIGHED_PROC_MAGIC)
     OR of_nat nr OR push_bit 16 (of_nat sz))"

definition all_ksys :: "ksys list" where
  "all_ksys =
    [KSYS_SET_CAP, KSYS_GET_CAP, KSYS_SET_PID_CAP, KSYS_GET_PID_CAP,
     KSYS_SET_FATHER_CAP, KSYS_GET_FATHER_CAP, KSYS_NB_MAX_NODES, KSYS_NB_MAX_CLUSTERS,
     KSYS_GET_SUPPORTED_CAP, KSYS_GET_NODE_ID, KSYS_GET_NODES_COUNT, KSYS_HOTPLUG_RESTART,
     KSYS_HOTPLUG_SHUTDOWN, KSYS_HOTPLUG_REBOOT, KSYS_HOTPLUG_STATUS, KSYS_HOTPLUG_ADD,
     KSYS_HOTPLUG_REMOVE, KSYS_HOTPLUG_FAIL, KSYS_HOTPLUG_NODES, KSYS_HOTPLUG_POWEROFF,
     KSYS_HOTPLUG_SET_CREATOR, KSYS_HOTPLUG_READY, KSYS_PROCESS_MIGRATION,
     KSYS_THREAD_MIGRATION, KSYS_APP_FREEZE, KSYS_APP_UNFREEZE, KSYS_APP_CHKPT,
     KSYS_APP_RESTART, KSYS_APP_SET_USERDATA, KSYS_APP_GET_USERDATA, KSYS_APP_CR_DISABLE,
     KSYS_APP_CR_ENABLE, KSYS_APP_CR_EXCLUDE, KSYS_IPC_MSGQ_CHKPT, KSYS_IPC_MSGQ_RESTART,
     KSYS_IPC_SEM_CHKPT, KSYS_IPC_SEM_RESTART, KSYS_IPC_SHM_CHKPT, KSYS_IPC_SHM_RESTART]"

lemma in_all_ksys: "k \<in> set all_ksys"
  by (cases k) (simp_all add: all_ksys_def)

lemma ioctl_number_distinct: "distinct (map ioctl_number all_ksys)"
  by (simp add: all_ksys_def ioctl_number_def base_defs KERRIGHED_PROC_MAGIC_def)

text \<open>C40.  No two services of the kernel interface share an ioctl number.\<close>

theorem ioctl_number_inj: "inj ioctl_number"
proof (rule injI)
  fix a b assume "ioctl_number a = ioctl_number b"
  then show "a = b"
    using ioctl_number_distinct in_all_ksys [of a] in_all_ksys [of b]
    by (auto simp: distinct_map dest: inj_onD)
qed

end
