(* ===== verification/C_String.thy ===== *)
theory C_String
  imports Krg_Prelude
begin

text \<open>
  The string functions of the C library that the tools use.  A C string is the list of its
  characters before the terminating NUL; a pointer into a string is the suffix it points to.
  \<open>strtol\<close> follows the C standard for the bases the tools use (10, and 0 with its octal and
  hexadecimal prefixes), with the value clamped to the range of \<^verbatim>\<open>long\<close>; that it sets \<open>errno\<close> on
  overflow is left out, no caller looks at it.  The lemmas are the facts the parsers rest on:
  decimal numerals round trip, and the position of a separator is where the search functions say.
\<close>

section \<open>Searching\<close>

definition strchr :: "string \<Rightarrow> char \<Rightarrow> string option" where
  "strchr s c = (case dropWhile (\<lambda>x. x \<noteq> c) s of [] \<Rightarrow> None | t \<Rightarrow> Some t)"

text \<open>\<open>strrchr\<close> gives the text before and after the last occurrence.\<close>

fun strrchr :: "string \<Rightarrow> char \<Rightarrow> (string \<times> string) option" where
  "strrchr [] c = None"
| "strrchr (x # xs) c =
     (case strrchr xs c of
        Some (b, a) \<Rightarrow> Some (x # b, a)
      | None \<Rightarrow> if x = c then Some ([], xs) else None)"

text \<open>\<open>strsep\<close> with one delimiter: the token and, if a delimiter was found, what follows it.\<close>

fun strsep :: "string \<Rightarrow> char \<Rightarrow> string \<times> string option" where
  "strsep [] c = ([], None)"
| "strsep (x # xs) c =
     (if x = c then ([], Some xs) else (case strsep xs c of (t, r) \<Rightarrow> (x # t, r)))"

fun strncmp :: "string \<Rightarrow> string \<Rightarrow> nat \<Rightarrow> int" where
  "strncmp a b 0 = 0"
| "strncmp [] [] (Suc n) = 0"
| "strncmp [] (b # bs) (Suc n) = - of_char b"
| "strncmp (a # as) [] (Suc n) = of_char a"
| "strncmp (a # as) (b # bs) (Suc n) =
     (if a = b then strncmp as bs n else of_char a - of_char b)"

lemma strrchr_None: "strrchr s c = None \<longleftrightarrow> c \<notin> set s"
  by (induction s) (auto split: option.splits)

lemma strrchr_Some: "strrchr s c = Some (b, a) \<Longrightarrow> s = b @ c # a \<and> c \<notin> set a"
  by (induction s arbitrary: b) (auto split: option.splits if_splits simp: strrchr_None)

lemma strrchr_append: "c \<notin> set a \<Longrightarrow> strrchr (b @ c # a) c = Some (b, a)"
proof (induction b)
  case Nil
  then show ?case by (simp add: strrchr_None [THEN iffD2])
qed simp

lemma strrchr_length: "strrchr s c = Some (b, a) \<Longrightarrow> length b < length s \<and> length a < length s"
  by (drule strrchr_Some) auto

lemma strsep_length: "strsep s c = (t, Some r) \<Longrightarrow> length r < length s"
  by (induction s arbitrary: t) (auto split: prod.splits if_splits)

lemma strsep_notin: "c \<notin> set s \<Longrightarrow> strsep s c = (s, None)"
  by (induction s) auto

lemma strsep_append: "c \<notin> set t \<Longrightarrow> strsep (t @ c # r) c = (t, Some r)"
  by (induction t) auto

lemma strsep_token: "strsep s c = (t, r) \<Longrightarrow> c \<notin> set t"
  by (induction s arbitrary: t) (auto split: prod.splits if_splits)

lemma strchr_append: "c \<notin> set b \<Longrightarrow> strchr (b @ c # a) c = Some (c # a)"
  by (simp add: strchr_def dropWhile_append2 dropWhile_append3 dropWhile_append)

lemma strncmp_char_zero: "of_char a = (of_char b :: int) \<longleftrightarrow> a = b"
  by simp

lemma strncmp_zero:
  assumes "CHR 0x00 \<notin> set a" and "CHR 0x00 \<notin> set b"
  shows "strncmp a b n = 0 \<longleftrightarrow> take n a = take n b"
  using assms
proof (induction a b n rule: strncmp.induct)
  case (3 b bs n)
  then have "of_char b \<noteq> (of_char (CHR 0x00) :: int)" by (subst strncmp_char_zero) auto
  then show ?case by simp
next
  case (4 a as n)
  then have "of_char a \<noteq> (of_char (CHR 0x00) :: int)" by (subst strncmp_char_zero) auto
  then show ?case by simp
qed (auto simp: strncmp_char_zero)

text \<open>A list of fields with a separator between them.\<close>

fun join_with :: "char \<Rightarrow> string list \<Rightarrow> string" where
  "join_with c [] = []"
| "join_with c [f] = f"
| "join_with c (f # fs) = f @ c # join_with c fs"

lemma join_with_snoc: "fs \<noteq> [] \<Longrightarrow> join_with c (fs @ [f]) = join_with c fs @ c # f"
  by (induction fs rule: join_with.induct) auto

lemma join_with_Cons: "fs \<noteq> [] \<Longrightarrow> join_with c (f # fs) = f @ c # join_with c fs"
  by (cases fs) auto

section \<open>Numerals\<close>

definition isspace :: "char \<Rightarrow> bool" where
  "isspace c \<longleftrightarrow> (of_char c :: nat) = 32 \<or> (9 \<le> (of_char c :: nat) \<and> (of_char c :: nat) \<le> 13)"

definition digit_val :: "char \<Rightarrow> nat option" where
  "digit_val c = (let n = of_char c :: nat in
     if 48 \<le> n \<and> n \<le> 57 then Some (n - 48)
     else if 97 \<le> n \<and> n \<le> 122 then Some (n - 87)
     else if 65 \<le> n \<and> n \<le> 90 then Some (n - 55)
     else None)"

definition is_digit :: "nat \<Rightarrow> char \<Rightarrow> bool" where
  "is_digit base c = (case digit_val c of None \<Rightarrow> False | Some d \<Rightarrow> d < base)"

definition digits_value :: "nat \<Rightarrow> string \<Rightarrow> int" where
  "digits_value base ds = foldl (\<lambda>acc c. acc * int base + int (the (digit_val c))) 0 ds"

fun split_sign :: "string \<Rightarrow> bool \<times> string" where
  "split_sign (c # cs) =
     (if c = CHR ''-'' then (True, cs) else if c = CHR ''+'' then (False, cs) else (False, c # cs))"
| "split_sign [] = (False, [])"

fun split_base :: "nat \<Rightarrow> string \<Rightarrow> nat \<times> string" where
  "split_base base s =
     (if base \<noteq> 0 then (base, s)
      else case s of
        z # x # d # _ \<Rightarrow>
          if z = CHR ''0'' \<and> (x = CHR ''x'' \<or> x = CHR ''X'') \<and> is_digit 16 d then (16, drop 2 s)
          else if z = CHR ''0'' then (8, s) else (10, s)
      | z # _ \<Rightarrow> if z = CHR ''0'' then (8, s) else (10, s)
      | [] \<Rightarrow> (10, s))"

definition clamp_long :: "int \<Rightarrow> int" where
  "clamp_long x = max LONG_MIN (min LONG_MAX x)"

definition strtol :: "string \<Rightarrow> nat \<Rightarrow> int \<times> string" where
  "strtol s base =
     (let (neg, s1) = split_sign (dropWhile isspace s);
          (b, s2) = split_base base s1;
          ds = takeWhile (is_digit b) s2;
          x = digits_value b ds
      in if ds = [] then (0, s)
         else (clamp_long (if neg then - x else x), dropWhile (is_digit b) s2))"

definition atol :: "string \<Rightarrow> int" where
  "atol s = fst (strtol s 10)"

definition atoi :: "string \<Rightarrow> int" where
  "atoi s = to_int (fst (strtol s 10))"

definition digit_char :: "nat \<Rightarrow> char" where
  "digit_char d = char_of (48 + d)"

function show_nat :: "nat \<Rightarrow> string" where
  "show_nat n = (if n < 10 then [digit_char n] else show_nat (n div 10) @ [digit_char (n mod 10)])"
  by pat_completeness auto
termination by (relation "measure id") auto

declare show_nat.simps [simp del]

text \<open>The conversion \<^verbatim>\<open>%d\<close>.\<close>

definition show_int :: "int \<Rightarrow> string" where
  "show_int i = (if i < 0 then CHR ''-'' # show_nat (nat (- i)) else show_nat (nat i))"

lemma of_char_digit_char: "d < 10 \<Longrightarrow> (of_char (digit_char d) :: nat) = 48 + d"
  by (simp add: digit_char_def)

lemma digit_char_facts:
  assumes "d < 10"
  shows "digit_val (digit_char d) = Some d" and "is_digit 10 (digit_char d)"
    and "\<not> isspace (digit_char d)"
  using assms by (simp_all add: digit_val_def is_digit_def isspace_def of_char_digit_char)

lemma show_nat_nonempty: "show_nat n \<noteq> []"
  by (subst show_nat.simps) simp

lemma show_nat_chars: "c \<in> set (show_nat n) \<Longrightarrow> is_digit 10 c \<and> \<not> isspace c"
proof (induction n rule: show_nat.induct)
  case (1 n)
  then show ?case
    by (cases "n < 10") (auto simp: show_nat.simps [of n] digit_char_facts)
qed

lemma digits_value_snoc: "digits_value b (ds @ [c]) = digits_value b ds * int b + int (the (digit_val c))"
  by (simp add: digits_value_def)

lemma digits_value_show_nat: "digits_value 10 (show_nat n) = int n"
proof (induction n rule: show_nat.induct)
  case (1 n)
  show ?case
  proof (cases "n < 10")
    case True
    then show ?thesis by (simp add: show_nat.simps [of n] digits_value_def digit_char_facts)
  next
    case False
    then have "digits_value 10 (show_nat n) = int (n div 10) * 10 + int (n mod 10)"
      using 1 by (simp add: show_nat.simps [of n] digits_value_snoc digit_char_facts)
    also have "\<dots> = int n" by presburger
    finally show ?thesis .
  qed
qed

lemma is_digit_not_sign: "is_digit 10 c \<Longrightarrow> c \<noteq> CHR ''-'' \<and> c \<noteq> CHR ''+'' \<and> c \<noteq> CHR '',''"
  by (auto simp: is_digit_def digit_val_def)

lemma split_sign_digit: "is_digit 10 c \<Longrightarrow> split_sign (c # cs) = (False, c # cs)"
  by (auto dest: is_digit_not_sign)

lemma takeWhile_stop:
  "(\<And>c. c \<in> set ds \<Longrightarrow> P c) \<Longrightarrow> (\<And>c cs. rest = c # cs \<Longrightarrow> \<not> P c) \<Longrightarrow>
   takeWhile P (ds @ rest) = ds \<and> dropWhile P (ds @ rest) = rest"
  by (induction ds) (cases rest; auto)+

text \<open>Reading back a printed number, followed by anything but a digit, gives the number.\<close>

lemma strtol_show_nat:
  assumes "int n \<le> LONG_MAX" and "\<And>c cs. rest = c # cs \<Longrightarrow> \<not> is_digit 10 c"
  shows "strtol (show_nat n @ rest) 10 = (int n, rest)"
proof -
  obtain c cs where c: "show_nat n = c # cs" using show_nat_nonempty by (cases "show_nat n") auto
  then have d: "is_digit 10 c" "\<not> isspace c" using show_nat_chars [of c n] by auto
  have "takeWhile (is_digit 10) (show_nat n @ rest) = show_nat n"
    and "dropWhile (is_digit 10) (show_nat n @ rest) = rest"
    using takeWhile_stop [of "show_nat n" "is_digit 10" rest] show_nat_chars assms(2) by auto
  moreover have "split_sign (dropWhile isspace (show_nat n @ rest)) = (False, show_nat n @ rest)"
    using d by (simp add: c split_sign_digit del: split_sign.simps)
  moreover have "clamp_long (int n) = int n" using assms(1) by (simp add: clamp_long_def)
  ultimately show ?thesis
    by (simp add: strtol_def digits_value_show_nat show_nat_nonempty)
qed

lemma show_nat_no_sep: "CHR '','' \<notin> set (show_nat n)" "CHR ''-'' \<notin> set (show_nat n)"
  using show_nat_chars is_digit_not_sign by blast+

text \<open>A numeral never has more digits than a power of ten above it has zeroes.\<close>

lemma show_nat_length: "n < 10 ^ k \<Longrightarrow> 0 < k \<Longrightarrow> length (show_nat n) \<le> k"
proof (induction n arbitrary: k rule: show_nat.induct)
  case (1 n)
  show ?case
  proof (cases "n < 10")
    case True
    then show ?thesis using 1(3) by (simp add: show_nat.simps [of n])
  next
    case False
    then obtain j where j: "k = Suc j" "0 < j" using 1(2) by (cases k; cases "k - 1") auto
    then have "n div 10 < 10 ^ j" using 1(2) by (simp add: less_mult_imp_div_less mult.commute)
    then have "length (show_nat (n div 10)) \<le> j" using False 1(1) j by blast
    then show ?thesis using False j by (simp add: show_nat.simps [of n])
  qed
qed

end
