(* ===== verification/Krg_Os.thy ===== *)
theory Krg_Os
  imports Kernel_ABI C_String
begin

text \<open>
  The environment of the tools.  Everything a tool learns from outside (the kernel, the file
  system, the allocator, other processes) is the answer to a request; the environment is an
  arbitrary function \<open>answers\<close> from the history of the process and a request to an answer, so a
  theorem about all environments covers every behaviour of the kernel.  The history \<open>trace\<close>
  records every request with its answer, everything printed, and a \<open>Fault\<close> for each access
  outside an array, in order: safety and ordering properties are statements about it.
\<close>

section \<open>Requests, answers, history\<close>

datatype kdata =
    NoData
  | DInt int
  | DInts "int list"
  | DStr string
  | DCap krg_cap_t
  | DPidCap int krg_cap_t
  | DMask hotplug_node_set
  | DMigr migration_infos
  | DCkpt checkpoint_info
  | DRst restart_request
  | DU64 "64 word"
  | DUser app_userdata_request
  | DRegions "cr_mm_region list"
  | DDir "(int \<times> string) list"

datatype req =
    Open string int int
  | Read int int
  | Write int kdata
  | Close int
  | Ioctl int ksys kdata
  | Stat string
  | Unlink string
  | Fcntl_getfl int
  | Malloc int
  | Realloc int
  | Free
  | Uninit
  | Getpid
  | Kill int int
  | Sigaction int
  | Msgget int int
  | Msgsnd int int
  | Msgrcv int
  | Msgctl_rmid int
  | Sleep int
  | Getchar
  | Time
  | Fopen string string
  | Fputs int string
  | Fclose int
  | Opendir string
  | Closedir int
  | Remove string
  | Pthread_create
  | Pthread_atfork
  | Pipe
  | Setsid
  | Wait
  | Vfork
  | Exec string "string list"
  | Clone "32 word" "string list"
  | Callback int int
  | Pending
  | Popen string
  | Fread int
  | Pclose int
  | Fileno int
  | Ctime int

text \<open>
  \<open>Callback\<close> calls a function of the application through a pointer; \<open>Pending\<close> asks whether a
  signal with a handler arrived since the last time; the answer to \<open>Opendir\<close> carries the entries
  (type and name) that reading the directory will give.
\<close>

text \<open>An answer: return value, the new \<open>errno\<close> if the call sets it, and the buffer it filled.\<close>

datatype resp = Resp (resp_ret: int) (resp_err: "int option") (resp_data: kdata)

datatype event =
    Sys req resp
  | Out string
  | Err string
  | Perror string int
  | Fault

record os =
  answers :: "event list \<Rightarrow> req \<Rightarrow> resp"
  trace :: "event list"
  errno :: int

definition emit :: "event \<Rightarrow> ('a os_scheme, unit) state" where
  "emit e = modify (\<lambda>s. s\<lparr>trace := trace s @ [e]\<rparr>)"

definition set_errno :: "int \<Rightarrow> ('a os_scheme, unit) state" where
  "set_errno e = modify (\<lambda>s. s\<lparr>errno := e\<rparr>)"

definition syscall :: "req \<Rightarrow> ('a os_scheme, resp) state" where
  "syscall q = State (\<lambda>s.
     let r = answers s (trace s) q
     in (r, s\<lparr>trace := trace s @ [Sys q r],
              errno := (case resp_err r of None \<Rightarrow> errno s | Some e \<Rightarrow> e)\<rparr>))"

definition perror :: "string \<Rightarrow> ('a os_scheme, unit) state" where
  "perror m = do { e \<leftarrow> gets errno; emit (Perror m e) }"

text \<open>Several lines printed by one call.\<close>

definition out_lines :: "string list \<Rightarrow> ('a os_scheme, unit) state" where
  "out_lines ls = emit (Out (concat (map (\<lambda>l. l @ ''\<newline>'') ls)))"

definition err_lines :: "string list \<Rightarrow> ('a os_scheme, unit) state" where
  "err_lines ls = emit (Err (concat (map (\<lambda>l. l @ ''\<newline>'') ls)))"

text \<open>An array read; outside the array the behaviour is undefined and a \<open>Fault\<close> is recorded.\<close>

definition load :: "int list \<Rightarrow> int \<Rightarrow> ('a os_scheme, int) state" where
  "load xs i = (if 0 \<le> i \<and> i < int (length xs) then return (xs ! nat i)
                else do { emit Fault; return 0 })"

definition store :: "int list \<Rightarrow> int \<Rightarrow> int \<Rightarrow> ('a os_scheme, int list) state" where
  "store xs i x = (if 0 \<le> i \<and> i < int (length xs) then return (xs[nat i := x])
                   else do { emit Fault; return xs })"

text \<open>
  \<^verbatim>\<open>malloc(n)\<close> for an array of bytes: \<open>None\<close> is the null pointer, otherwise the contents of the
  fresh block, which are whatever the allocator left there.
\<close>

definition pad_block :: "nat \<Rightarrow> int list \<Rightarrow> int list" where
  "pad_block n xs = take n xs @ replicate (n - length xs) 0"

definition data_ints :: "kdata \<Rightarrow> int list" where
  "data_ints d = (case d of DInts xs \<Rightarrow> xs | _ \<Rightarrow> [])"

definition malloc :: "int \<Rightarrow> ('a os_scheme, int list option) state" where
  "malloc n = do {
     r \<leftarrow> syscall (Malloc n);
     return (if resp_ret r = 0 then None
             else Some (pad_block (nat (n mod 2 ^ 64)) (data_ints (resp_data r)))) }"

definition free :: "('a os_scheme, unit) state" where
  "free = do { syscall Free; return () }"

text \<open>The value of an automatic variable that was never assigned.\<close>

definition uninit :: "('a os_scheme, int) state" where
  "uninit = do { r \<leftarrow> syscall Uninit; return (resp_ret r) }"

abbreviation (input) EPERM :: int where "EPERM \<equiv> 1"
abbreviation (input) ENOENT :: int where "ENOENT \<equiv> 2"
abbreviation (input) EINTR :: int where "EINTR \<equiv> 4"
abbreviation (input) EBADF :: int where "EBADF \<equiv> 9"
abbreviation (input) ENOMEM :: int where "ENOMEM \<equiv> 12"
abbreviation (input) EBUSY :: int where "EBUSY \<equiv> 16"
abbreviation (input) EINVAL :: int where "EINVAL \<equiv> 22"
abbreviation (input) ERANGE :: int where "ERANGE \<equiv> 34"
abbreviation (input) EXIT_SUCCESS :: int where "EXIT_SUCCESS \<equiv> 0"
abbreviation (input) EXIT_FAILURE :: int where "EXIT_FAILURE \<equiv> 1"
abbreviation (input) O_RDONLY :: int where "O_RDONLY \<equiv> 0"
abbreviation (input) O_WRONLY :: int where "O_WRONLY \<equiv> 1"
abbreviation (input) O_CREAT :: int where "O_CREAT \<equiv> 64"
abbreviation (input) O_EXCL :: int where "O_EXCL \<equiv> 128"

text \<open>Concrete environments for evaluation: a fresh process over the given answers.\<close>

definition idle_os :: "(event list \<Rightarrow> req \<Rightarrow> resp) \<Rightarrow> os" where
  "idle_os f = \<lparr>answers = f, trace = [], errno = 0\<rparr>"

definition no_kernel :: "event list \<Rightarrow> req \<Rightarrow> resp" where
  "no_kernel tr q = (case q of Open _ _ _ \<Rightarrow> Resp (-1) (Some ENOENT) NoData | _ \<Rightarrow> Resp 0 None NoData)"

section \<open>Running primitives\<close>

lemma run_emit [simp]: "run_state (emit e) s = ((), s\<lparr>trace := trace s @ [e]\<rparr>)"
  by (simp add: emit_def)

lemma run_set_errno [simp]: "run_state (set_errno e) s = ((), s\<lparr>errno := e\<rparr>)"
  by (simp add: set_errno_def)

lemma run_perror [simp]: "run_state (perror m) s = ((), s\<lparr>trace := trace s @ [Perror m (errno s)]\<rparr>)"
  by (simp add: perror_def)

definition after :: "req \<Rightarrow> 'a os_scheme \<Rightarrow> 'a os_scheme" where
  "after q s = (let r = answers s (trace s) q in
     s\<lparr>trace := trace s @ [Sys q r], errno := (case resp_err r of None \<Rightarrow> errno s | Some e \<Rightarrow> e)\<rparr>)"

lemma run_syscall [simp]: "run_state (syscall q) s = (answers s (trace s) q, after q s)"
  by (simp add: syscall_def after_def Let_def)

lemma after_simps [simp]:
  "answers (after q s) = answers s"
  "trace (after q s) = trace s @ [Sys q (answers s (trace s) q)]"
  "os.more (after q s) = os.more s"
  by (simp_all add: after_def Let_def)

lemma load_in [simp]: "0 \<le> i \<Longrightarrow> i < int (length xs) \<Longrightarrow> load xs i = return (xs ! nat i)"
  by (simp add: load_def)

lemma store_in [simp]: "0 \<le> i \<Longrightarrow> i < int (length xs) \<Longrightarrow> store xs i x = return (xs[nat i := x])"
  by (simp add: store_def)

lemma length_pad_block [simp]: "length (pad_block n xs) = n"
  by (simp add: pad_block_def)

lemma run_malloc:
  "run_state (malloc n) s =
     ((if resp_ret (answers s (trace s) (Malloc n)) = 0 then None
       else Some (pad_block (nat (n mod 2 ^ 64)) (data_ints (resp_data (answers s (trace s) (Malloc n)))))),
      after (Malloc n) s)"
  by (simp add: malloc_def)

lemma run_free [simp]: "run_state free s = ((), after Free s)"
  by (simp add: free_def)

section \<open>Frames\<close>

text \<open>
  \<open>frame s s'\<close>: from \<open>s\<close> to \<open>s'\<close> only \<open>errno\<close> and the history changed, and the history only
  grew.  An operation is \<open>framed\<close> if each of its runs is; the rules let \<open>intro framed_intros\<close>
  prove it by following the text of a definition.
\<close>

definition frame :: "'a os_scheme \<Rightarrow> 'a os_scheme \<Rightarrow> bool" where
  "frame s s' \<longleftrightarrow> answers s' = answers s \<and> os.more s' = os.more s \<and> (\<exists>es. trace s' = trace s @ es)"

definition framed :: "('a os_scheme, 'b) state \<Rightarrow> bool" where
  "framed m \<longleftrightarrow> (\<forall>s. frame s (snd (run_state m s)))"

named_theorems framed_intros

lemma frame_refl [simp]: "frame s s"
  by (simp add: frame_def)

lemma frame_trans: "frame s t \<Longrightarrow> frame t u \<Longrightarrow> frame s u"
  by (auto simp: frame_def)

lemma frame_after [simp]: "frame s (after q s)"
  by (simp add: frame_def)

lemma frame_answers: "frame s s' \<Longrightarrow> answers s' = answers s"
  by (simp add: frame_def)

lemma framedD: "framed m \<Longrightarrow> run_state m s = (x, s') \<Longrightarrow> frame s s'"
  by (metis framed_def snd_conv)

lemma framed_return [framed_intros]: "framed (return x)"
  by (simp add: framed_def)

lemma framed_gets [framed_intros]: "framed (gets f)"
  by (simp add: framed_def)

lemma framed_bind [framed_intros]:
  assumes "framed m" and "\<And>x. framed (f x)"
  shows "framed (m \<bind> f)"
  unfolding framed_def
proof
  fix s
  obtain x s1 where 1: "run_state m s = (x, s1)" by fastforce
  obtain y s2 where 2: "run_state (f x) s1 = (y, s2)" by fastforce
  have "frame s s2" using assms 1 2 by (meson framedD frame_trans)
  then show "frame s (snd (run_state (m \<bind> f) s))" using 1 2 by simp
qed

lemma framed_if [framed_intros]: "(b \<Longrightarrow> framed m) \<Longrightarrow> (\<not> b \<Longrightarrow> framed n) \<Longrightarrow> framed (if b then m else n)"
  by simp

lemma framed_case_option [framed_intros]:
  "(x = None \<Longrightarrow> framed m) \<Longrightarrow> (\<And>y. x = Some y \<Longrightarrow> framed (f y)) \<Longrightarrow>
   framed (case x of None \<Rightarrow> m | Some y \<Rightarrow> f y)"
  by (cases x) simp_all

lemma framed_case_prod [framed_intros]:
  "(\<And>a b. x = (a, b) \<Longrightarrow> framed (f a b)) \<Longrightarrow> framed (case x of (a, b) \<Rightarrow> f a b)"
  by (cases x) simp

lemma framed_emit [framed_intros]: "framed (emit e)"
  by (simp add: framed_def frame_def)

lemma framed_lines [framed_intros]: "framed (out_lines ls)" "framed (err_lines ls)"
  unfolding out_lines_def err_lines_def by (intro framed_intros)+

lemma framed_case_sum [framed_intros]:
  "(\<And>a. x = Inl a \<Longrightarrow> framed (f a)) \<Longrightarrow> (\<And>b. x = Inr b \<Longrightarrow> framed (g b)) \<Longrightarrow>
   framed (case x of Inl a \<Rightarrow> f a | Inr b \<Rightarrow> g b)"
  by (cases x) simp_all

lemma framed_set_errno [framed_intros]: "framed (set_errno e)"
  by (simp add: framed_def frame_def)

lemma framed_syscall [framed_intros]: "framed (syscall q)"
  by (simp add: framed_def)

lemma framed_perror [framed_intros]: "framed (perror m)"
  unfolding perror_def by (intro framed_intros)

lemma framed_load [framed_intros]: "framed (load xs i)"
  unfolding load_def by (intro framed_intros)

lemma framed_store [framed_intros]: "framed (store xs i x)"
  unfolding store_def by (intro framed_intros)

lemma framed_malloc [framed_intros]: "framed (malloc n)"
  unfolding malloc_def by (intro framed_intros)

lemma framed_free [framed_intros]: "framed free"
  unfolding free_def by (intro framed_intros)

lemma framed_uninit [framed_intros]: "framed uninit"
  unfolding uninit_def by (intro framed_intros)

lemma framed_foldM [framed_intros]:
  "(\<And>acc x. framed (f acc x)) \<Longrightarrow> framed (foldM f acc xs)"
  by (induction xs arbitrary: acc) (auto intro: framed_intros)

lemma framed_firstM [framed_intros]: "(\<And>x. framed (p x)) \<Longrightarrow> framed (firstM p xs)"
  by (induction xs) (auto intro!: framed_intros)

lemma framed_forM [framed_intros]: "(\<And>x. framed (f x)) \<Longrightarrow> framed (forM f xs)"
  by (induction xs) (auto intro: framed_intros)

section \<open>What an operation leaves unchanged\<close>

text \<open>
  \<open>keeps f m\<close>: whatever \<open>m\<close> does, the view \<open>f\<close> of the history (the services called, the files
  opened, and so on) is the same afterwards.
\<close>

definition keeps :: "(event list \<Rightarrow> 'x) \<Rightarrow> ('a os_scheme, 'b) state \<Rightarrow> bool" where
  "keeps f m \<longleftrightarrow> (\<forall>s. f (trace (snd (run_state m s))) = f (trace s))"

named_theorems keeps_intros

lemma keepsD: "keeps f m \<Longrightarrow> run_state m s = (x, s') \<Longrightarrow> f (trace s') = f (trace s)"
  by (metis keeps_def snd_conv)

lemma keeps_return [keeps_intros]: "keeps f (return x)"
  by (simp add: keeps_def)

lemma keeps_gets [keeps_intros]: "keeps f (gets g)"
  by (simp add: keeps_def)

lemma keeps_bind [keeps_intros]:
  assumes "keeps f m" and "\<And>x. keeps f (g x)"
  shows "keeps f (m \<bind> g)"
  using assms by (simp add: keeps_def split: prod.splits) (metis snd_conv)

lemma keeps_if [keeps_intros]: "(b \<Longrightarrow> keeps f m) \<Longrightarrow> (\<not> b \<Longrightarrow> keeps f n) \<Longrightarrow> keeps f (if b then m else n)"
  by simp

lemma keeps_case_option [keeps_intros]:
  "(x = None \<Longrightarrow> keeps f m) \<Longrightarrow> (\<And>y. x = Some y \<Longrightarrow> keeps f (g y)) \<Longrightarrow>
   keeps f (case x of None \<Rightarrow> m | Some y \<Rightarrow> g y)"
  by (cases x) simp_all

lemma keeps_case_sum [keeps_intros]:
  "(\<And>a. x = Inl a \<Longrightarrow> keeps f (g a)) \<Longrightarrow> (\<And>b. x = Inr b \<Longrightarrow> keeps f (h b)) \<Longrightarrow>
   keeps f (case x of Inl a \<Rightarrow> g a | Inr b \<Rightarrow> h b)"
  by (cases x) simp_all

lemma keeps_case_prod [keeps_intros]:
  "(\<And>a b. x = (a, b) \<Longrightarrow> keeps f (g a b)) \<Longrightarrow> keeps f (case x of (a, b) \<Rightarrow> g a b)"
  by (cases x) simp

lemma keeps_case_list [keeps_intros]:
  "(x = [] \<Longrightarrow> keeps f m) \<Longrightarrow> (\<And>y ys. x = y # ys \<Longrightarrow> keeps f (g y ys)) \<Longrightarrow>
   keeps f (case x of [] \<Rightarrow> m | y # ys \<Rightarrow> g y ys)"
  by (cases x) simp_all

lemma keeps_foldM [keeps_intros]: "(\<And>acc x. keeps f (g acc x)) \<Longrightarrow> keeps f (foldM g acc xs)"
  by (induction xs arbitrary: acc) (auto intro: keeps_intros)

lemma keeps_forM [keeps_intros]: "(\<And>x. keeps f (g x)) \<Longrightarrow> keeps f (forM g xs)"
  by (induction xs) (auto intro: keeps_intros)

lemma keeps_firstM [keeps_intros]: "(\<And>x. keeps f (p x)) \<Longrightarrow> keeps f (firstM p xs)"
  by (induction xs) (auto intro!: keeps_intros)

lemma keeps_modify: "(\<And>s. f (trace (g s)) = f (trace s)) \<Longrightarrow> keeps f (modify g)"
  by (simp add: keeps_def)

lemma keeps_set_errno [keeps_intros]: "keeps f (set_errno e)"
  by (simp add: keeps_def)

text \<open>A view is blind to an event if it does not show in it.\<close>

definition blind :: "(event list \<Rightarrow> 'x) \<Rightarrow> event \<Rightarrow> bool" where
  "blind f e \<longleftrightarrow> (\<forall>tr. f (tr @ [e]) = f tr)"

lemma keeps_emit [keeps_intros]: "blind f e \<Longrightarrow> keeps f (emit e)"
  by (simp add: keeps_def blind_def)

lemma keeps_lines [keeps_intros]:
  "(\<And>l. blind f (Out l)) \<Longrightarrow> keeps f (out_lines ls)" "(\<And>l. blind f (Err l)) \<Longrightarrow> keeps f (err_lines ls)"
  by (simp_all add: out_lines_def err_lines_def keeps_emit)

lemma keeps_perror [keeps_intros]: "(\<And>e. blind f (Perror m e)) \<Longrightarrow> keeps f (perror m)"
  unfolding perror_def by (intro keeps_intros)

lemma keeps_syscall [keeps_intros]: "(\<And>r. blind f (Sys q r)) \<Longrightarrow> keeps f (syscall q)"
  by (simp add: keeps_def blind_def)

lemma keeps_uninit [keeps_intros]: "(\<And>r. blind f (Sys Uninit r)) \<Longrightarrow> keeps f uninit"
  unfolding uninit_def by (intro keeps_intros)

section \<open>Reading the history\<close>

text \<open>The kernel services a history called, with argument and result, in order.\<close>

fun ksys_calls :: "event list \<Rightarrow> (ksys \<times> kdata \<times> int) list" where
  "ksys_calls [] = []"
| "ksys_calls (Sys (Ioctl fd k d) r # es) = (k, d, resp_ret r) # ksys_calls es"
| "ksys_calls (e # es) = ksys_calls es"

lemma ksys_calls_append [simp]: "ksys_calls (es @ fs) = ksys_calls es @ ksys_calls fs"
  by (induction es rule: ksys_calls.induct) simp_all

definition faults :: "event list \<Rightarrow> nat" where
  "faults es = count_list es Fault"

text \<open>Blocks allocated and not yet freed.\<close>

fun blocks :: "event list \<Rightarrow> int" where
  "blocks [] = 0"
| "blocks (Sys (Malloc n) r # es) = (if resp_ret r = 0 then 0 else 1) + blocks es"
| "blocks (Sys Free r # es) = blocks es - 1"
| "blocks (e # es) = blocks es"

lemma blocks_append [simp]: "blocks (es @ fs) = blocks es + blocks fs"
  by (induction es rule: blocks.induct) simp_all

text \<open>Descriptors opened and not yet closed.\<close>

fun open_fds :: "event list \<Rightarrow> int" where
  "open_fds [] = 0"
| "open_fds (Sys (Open p f m) r # es) = (if resp_ret r = -1 then 0 else 1) + open_fds es"
| "open_fds (Sys (Close fd) r # es) = open_fds es - 1"
| "open_fds (e # es) = open_fds es"

lemma open_fds_append [simp]: "open_fds (es @ fs) = open_fds es + open_fds fs"
  by (induction es rule: open_fds.induct) simp_all

end
