(* ===== verification/Services.thy ===== *)
theory Services
  imports Krg_Os
begin

text \<open>
  \<^verbatim>\<open>libs/libkerrighed/libkerrighed_tools.c\<close>: the ABI check of the library constructor and the
  calls of kernel services through \<^verbatim>\<open>/proc/kerrighed/services\<close>.  The lemmas say when the ABI check
  succeeds, that a service call closes what it opened, and what a call adds to the history.
\<close>

section \<open>ABI check\<close>

definition KERRIGHED_ABI :: string where
  "KERRIGHED_ABI = ''1''"

definition data_str :: "kdata \<Rightarrow> string" where
  "data_str d = (case d of DStr t \<Rightarrow> t | _ \<Rightarrow> [])"

text \<open>The bytes read stand at the start of the buffer \<^verbatim>\<open>version\<close>; \<open>strncmp\<close> stops at a NUL.\<close>

definition cstr :: "string \<Rightarrow> string" where
  "cstr t = takeWhile (\<lambda>c. c \<noteq> CHR 0x00) t"

definition check_abi_version :: "('a os_scheme, int) state" where
  "check_abi_version = do {
     fd \<leftarrow> syscall (Open ''/sys/kerrighed/abi'' O_RDONLY 0);
     if resp_ret fd = -1 then return (-1)
     else do {
       r \<leftarrow> syscall (Read (resp_ret fd) 256);
       ret \<leftarrow> return (if resp_ret r < 2 then -1
                      else if strncmp (cstr (data_str (resp_data r))) KERRIGHED_ABI
                                (nat (resp_ret r - 1)) \<noteq> 0 then -1
                      else 0);
       syscall (Close (resp_ret fd));
       return ret } }"

text \<open>The constructor of the library: \<open>Some status\<close> when the process exits.\<close>

definition init_krg_lib :: "('a os_scheme, int option) state" where
  "init_krg_lib = do {
     ret \<leftarrow> check_abi_version;
     if ret \<noteq> 0 then do {
       emit (Err ''kerrighed: tools and kernel version mismatch'');
       return (Some EXIT_FAILURE) }
     else return None }"

section \<open>Service calls\<close>

definition open_kerrighed_services :: "('a os_scheme, int) state" where
  "open_kerrighed_services = do {
     r \<leftarrow> syscall (Open ''/proc/kerrighed/services'' O_RDONLY 0);
     return (resp_ret r) }"

definition close_kerrighed_services :: "int \<Rightarrow> ('a os_scheme, unit) state" where
  "close_kerrighed_services fd = do { syscall (Close fd); return () }"

text \<open>
  The argument of an ioctl is a buffer that the kernel may write: the result pairs the return
  value with the answer's data, from which each caller takes the buffer contents.
\<close>

definition call_opened_kerrighed_services :: "int \<Rightarrow> ksys \<Rightarrow> kdata \<Rightarrow> ('a os_scheme, int \<times> kdata) state"
  where
  "call_opened_kerrighed_services fd service_id data = do {
     r \<leftarrow> syscall (Ioctl fd service_id data);
     return (resp_ret r, resp_data r) }"

definition call_kerrighed_services :: "ksys \<Rightarrow> kdata \<Rightarrow> ('a os_scheme, int \<times> kdata) state" where
  "call_kerrighed_services service_id data = do {
     fd \<leftarrow> open_kerrighed_services;
     if fd = -1 then return (-1, NoData)
     else do {
       res \<leftarrow> call_opened_kerrighed_services fd service_id data;
       close_kerrighed_services fd;
       return res } }"

text \<open>The same call where only the return value matters.\<close>

definition call_service :: "ksys \<Rightarrow> kdata \<Rightarrow> ('a os_scheme, int) state" where
  "call_service service_id data = do {
     r \<leftarrow> call_kerrighed_services service_id data;
     return (fst r) }"

lemma framed_open_services [framed_intros]: "framed open_kerrighed_services"
  unfolding open_kerrighed_services_def by (intro framed_intros)

lemma framed_close_services [framed_intros]: "framed (close_kerrighed_services fd)"
  unfolding close_kerrighed_services_def by (intro framed_intros)

lemma framed_call_opened [framed_intros]: "framed (call_opened_kerrighed_services fd k d)"
  unfolding call_opened_kerrighed_services_def by (intro framed_intros)

lemma framed_call [framed_intros]: "framed (call_kerrighed_services k d)"
  unfolding call_kerrighed_services_def by (intro framed_intros)

lemma framed_call_service [framed_intros]: "framed (call_service k d)"
  unfolding call_service_def by (intro framed_intros)

lemma framed_check_abi [framed_intros]: "framed check_abi_version"
  unfolding check_abi_version_def by (intro framed_intros)

section \<open>Environments in which service calls get through\<close>

text \<open>
  \<open>serves s k d f\<close>: in the environment of \<open>s\<close> the services file can always be opened, and
  service \<open>k\<close> called with data \<open>d\<close> is answered, whatever the history, with the return value and
  data \<open>f\<close> names.
\<close>

definition services_path :: req where
  "services_path = Open ''/proc/kerrighed/services'' O_RDONLY 0"

definition can_open :: "'a os_scheme \<Rightarrow> bool" where
  "can_open s \<longleftrightarrow> (\<forall>tr. resp_ret (answers s tr services_path) \<noteq> -1)"

definition serves :: "'a os_scheme \<Rightarrow> ksys \<Rightarrow> kdata \<Rightarrow> int \<times> kdata \<Rightarrow> bool" where
  "serves s k d f \<longleftrightarrow> can_open s \<and>
     (\<forall>tr fd. resp_ret (answers s tr (Ioctl fd k d)) = fst f \<and>
              resp_data (answers s tr (Ioctl fd k d)) = snd f)"

lemma can_open_frame: "frame s s' \<Longrightarrow> can_open s' = can_open s"
  by (simp add: can_open_def frame_def)

lemma serves_frame: "frame s s' \<Longrightarrow> serves s' k d f = serves s k d f"
  by (auto simp: serves_def frame_def can_open_def)

lemma run_call:
  "run_state (call_kerrighed_services k d) s =
    (let fd = resp_ret (answers s (trace s) services_path); s1 = after services_path s in
     if fd = -1 then ((-1, NoData), s1)
     else let r = answers s (trace s1) (Ioctl fd k d) in
       ((resp_ret r, resp_data r), after (Close fd) (after (Ioctl fd k d) s1)))"
  by (simp add: call_kerrighed_services_def open_kerrighed_services_def
      call_opened_kerrighed_services_def close_kerrighed_services_def services_path_def Let_def)

lemma run_call_serves:
  assumes "serves s k d f"
  obtains s' where "run_state (call_kerrighed_services k d) s = (f, s')" and "frame s s'"
    and "ksys_calls (trace s') = ksys_calls (trace s) @ [(k, d, fst f)]"
    and "faults (trace s') = faults (trace s)"
proof -
  let ?fd = "resp_ret (answers s (trace s) services_path)"
  let ?s' = "after (Close ?fd) (after (Ioctl ?fd k d) (after services_path s))"
  have "run_state (call_kerrighed_services k d) s = (f, ?s')"
    using assms by (simp add: run_call Let_def serves_def can_open_def prod_eq_iff)
  moreover have "frame s ?s'" by (meson frame_after frame_trans)
  moreover have "ksys_calls (trace ?s') = ksys_calls (trace s) @ [(k, d, fst f)]"
    using assms by (simp add: serves_def services_path_def)
  moreover have "faults (trace ?s') = faults (trace s)"
    by (simp add: faults_def)
  ultimately show thesis by (rule that)
qed

section \<open>Properties\<close>



text \<open>
  C34.  The ABI check accepts exactly the kernels whose ABI file can be read and starts, up to
  the last byte read (the newline), with the library's ABI string or a prefix of it.
\<close>

theorem check_abi_version_accepts:
  "fst (run_state check_abi_version s) = 0 \<longleftrightarrow>
    (let f = answers s (trace s) (Open ''/sys/kerrighed/abi'' O_RDONLY 0);
         r = answers s (trace s @ [Sys (Open ''/sys/kerrighed/abi'' O_RDONLY 0) f]) (Read (resp_ret f) 256);
         n = nat (resp_ret r - 1)
     in resp_ret f \<noteq> -1 \<and> 2 \<le> resp_ret r \<and>
        take n (cstr (data_str (resp_data r))) = take n KERRIGHED_ABI)"
proof -
  have "CHR 0x00 \<notin> set (cstr t)" for t
    by (auto simp: cstr_def dest: set_takeWhileD)
  moreover have "CHR 0x00 \<notin> set KERRIGHED_ABI"
    by (simp add: KERRIGHED_ABI_def)
  ultimately show ?thesis
    by (auto simp: check_abi_version_def strncmp_zero Let_def)
qed

end
