(* ===== verification/Nodemask.thy ===== *)
theory Nodemask
  imports Krg_Os
begin

text \<open>
  \<^verbatim>\<open>libs/include/krgnodemask.h\<close>: the node mask given to the kernel.  \<open>set_bit_asm\<close> is the x86
  instruction \<^verbatim>\<open>btsl\<close> of \<^verbatim>\<open>__set_bit\<close>: it addresses a 32-bit cell at the given bit offset from
  the start of the array, here seen inside the 64-bit words of the mask (little endian).  The
  lemmas show that it sets exactly the bit of the node and stays inside the mask for the node
  numbers below \<open>KERRIGHED_HARD_MAX_NODES\<close>.
\<close>

unbundle bit_operations_syntax

definition set_bit_asm :: "int \<Rightarrow> krgnodemask \<Rightarrow> ('a os_scheme, krgnodemask) state" where
  "set_bit_asm nr bits = (let d = nr div 32; b = nr mod 32 in
     if 0 \<le> d \<and> d < 2 * int (length bits)
     then return (bits[nat (d div 2) :=
            bits ! nat (d div 2) OR push_bit (nat (32 * (d mod 2) + b)) 1])
     else do { emit Fault; return bits })"

definition krgnode_set :: "int \<Rightarrow> krgnodemask \<Rightarrow> ('a os_scheme, krgnodemask) state" where
  "krgnode_set node dst = set_bit_asm node dst"

definition krgnodes_clear :: "krgnodemask" where
  "krgnodes_clear = replicate LONGS_PER_KRGNODEMASK 0"

text \<open>The nodes whose bit is set.\<close>

definition mask_nodes :: "krgnodemask \<Rightarrow> int set" where
  "mask_nodes m = {n. 0 \<le> n \<and> n < 64 * int (length m) \<and> bit (m ! nat (n div 64)) (nat (n mod 64))}"

lemma length_clear [simp]: "length krgnodes_clear = 4"
  by (simp add: krgnodes_clear_def LONGS_PER_KRGNODEMASK_def KERRIGHED_HARD_MAX_NODES_def)

lemma mask_nodes_clear [simp]: "mask_nodes krgnodes_clear = {}"
  by (auto simp: mask_nodes_def)
     (auto simp: krgnodes_clear_def LONGS_PER_KRGNODEMASK_def KERRIGHED_HARD_MAX_NODES_def nth_replicate)

lemma framed_krgnode_set [framed_intros]: "framed (krgnode_set n m)"
  unfolding krgnode_set_def set_bit_asm_def Let_def by (intro framed_intros)

lemma set_bit_cell:
  shows "(nr :: int) div 32 div 2 = nr div 64" and "32 * (nr div 32 mod 2) + nr mod 32 = nr mod 64"
  using zdiv_zmult2_eq [of 2 nr 32] zmod_zmult2_eq [of 2 nr 32] by simp_all

lemma run_krgnode_set:
  assumes "0 \<le> n" and "n < 64 * int (length m)"
  shows "run_state (krgnode_set n m) s =
    (m[nat (n div 64) := m ! nat (n div 64) OR push_bit (nat (n mod 64)) 1], s)"
proof -
  have "0 \<le> n div 32" "n div 32 < 2 * int (length m)" using assms by auto
  then show ?thesis
    by (simp add: krgnode_set_def set_bit_asm_def Let_def set_bit_cell)
qed

lemma mask_nodes_set:
  assumes "0 \<le> n" and "n < 64 * int (length m)"
  shows "mask_nodes (m[nat (n div 64) := m ! nat (n div 64) OR push_bit (nat (n mod 64)) 1])
    = insert n (mask_nodes m)" (is "mask_nodes ?m' = _")
proof (rule set_eqI)
  fix x
  have cell: "nat (n div 64) < length m" "nat (n mod 64) < 64" using assms by auto
  show "x \<in> mask_nodes ?m' \<longleftrightarrow> x \<in> insert n (mask_nodes m)"
  proof (cases "0 \<le> x \<and> x < 64 * int (length m)")
    case False
    then show ?thesis using assms by (auto simp: mask_nodes_def)
  next
    case True
    then have cellx: "nat (x div 64) < length m" "nat (x mod 64) < 64" by auto
    have eq: "x = n \<longleftrightarrow> nat (x div 64) = nat (n div 64) \<and> nat (x mod 64) = nat (n mod 64)"
    proof -
      have "x = n \<longleftrightarrow> x div 64 = n div 64 \<and> x mod 64 = n mod 64" by (metis div_mult_mod_eq)
      moreover have "0 \<le> x div 64" "0 \<le> n div 64" using assms(1) True by (simp_all add: pos_imp_zdiv_nonneg_iff)
      ultimately show ?thesis by (simp add: eq_nat_nat_iff)
    qed
    show ?thesis
    proof (cases "nat (x div 64) = nat (n div 64)")
      case same: True
      then show ?thesis using True cellx assms
        by (simp add: mask_nodes_def eq bit_or_iff bit_exp_iff) auto
    next
      case False
      then show ?thesis using True assms by (simp add: mask_nodes_def eq)
    qed
  qed
qed

lemma krgnode_set_step:
  assumes "0 \<le> n" and "n < 64 * int (length m)"
  obtains m' where "run_state (krgnode_set n m) s = (m', s)" and "length m' = length m"
    and "mask_nodes m' = insert n (mask_nodes m)"
  using that run_krgnode_set [OF assms] mask_nodes_set [OF assms] length_list_update by metis

text \<open>
  C38.  Marking one node number after the other, starting from a cleared mask, never writes
  outside the mask and marks exactly those nodes, for any numbers the mask has room for.
\<close>

theorem krgnode_set_exact:
  assumes "set ns \<subseteq> {0..<KERRIGHED_HARD_MAX_NODES}"
  shows "\<exists>m. run_state (foldM (\<lambda>m n. krgnode_set n m) krgnodes_clear ns) s = (m, s) \<and>
    length m = LONGS_PER_KRGNODEMASK \<and> mask_nodes m = set ns"
proof -
  have "\<exists>m'. run_state (foldM (\<lambda>m n. krgnode_set n m) m ns) s = (m', s) \<and> length m' = 4 \<and>
      mask_nodes m' = mask_nodes m \<union> set ns" if "length m = 4" for m
    using that assms
  proof (induction ns arbitrary: m)
    case (Cons n ns)
    then have n: "0 \<le> n" "n < 64 * int (length m)"
      by (auto simp: KERRIGHED_HARD_MAX_NODES_def)
    obtain m1 where 1: "run_state (krgnode_set n m) s = (m1, s)" "length m1 = 4"
        "mask_nodes m1 = insert n (mask_nodes m)"
      using krgnode_set_step [OF n, of s] Cons.prems(1) by metis
    obtain m' where "run_state (foldM (\<lambda>m n. krgnode_set n m) m1 ns) s = (m', s)" "length m' = 4"
        "mask_nodes m' = mask_nodes m1 \<union> set ns"
      using Cons.IH [OF 1(2)] Cons.prems(2) by auto
    then show ?case using 1 by auto
  qed simp
  from this [OF length_clear] show ?thesis
    by (simp add: LONGS_PER_KRGNODEMASK_def KERRIGHED_HARD_MAX_NODES_def)
qed

theorem krgnode_set_exact_witness:
  "\<exists>m. run_state (foldM (\<lambda>m n. krgnode_set n m) krgnodes_clear [3, 64, 255]) (idle_os no_kernel)
     = (m, (idle_os no_kernel)) \<and> mask_nodes m = {3, 64, 255}"
  using krgnode_set_exact [of "[3, 64, 255]" "idle_os no_kernel"]
  by (auto simp: KERRIGHED_HARD_MAX_NODES_def simp del: foldM.simps)

end
