(* ===== verification/Node_Set_Spec.thy ===== *)
theory Node_Set_Spec
  imports Krg_Os
begin

text \<open>
  The interfaces of the node containers of libhotplug, as locales.  \<open>node_iterator\<close> is the
  contract of the \<^verbatim>\<open>..._next\<close> functions (give -1 to start, get the next member or -1);
  \<open>node_set_adt\<close> extends it to the whole node-set type.  The client idiom
  \<^verbatim>\<open>node = next(set, -1); while (node != -1) { ...; node = next(set, node); }\<close> of krgadm is the
  function \<open>walk\<close>; inside the locale it is shown to be a fold over the members in ascending
  order, even when the body removes members up to the current one.
\<close>

section \<open>The walking loop\<close>

text \<open>
  The loop runs with fuel; \<open>None\<close> means that the fuel ran out.  The callers give one unit more
  than there are node numbers, which \<open>walk_foldM\<close> shows to be enough.
\<close>

fun walk :: "('c \<Rightarrow> int \<Rightarrow> ('s, int) state) \<Rightarrow> ('c \<Rightarrow> 'b \<Rightarrow> int \<Rightarrow> ('s, 'c \<times> 'b) state) \<Rightarrow>
    nat \<Rightarrow> 'c \<Rightarrow> 'b \<Rightarrow> int \<Rightarrow> ('s, ('c \<times> 'b) option) state" where
  "walk nxt body 0 c b node = return None"
| "walk nxt body (Suc fuel) c b node =
     (if node = -1 then return (Some (c, b))
      else do {
        cb \<leftarrow> body c b node;
        node' \<leftarrow> nxt (fst cb) node;
        walk nxt body fuel (fst cb) (snd cb) node' })"

definition from_node :: "int set \<Rightarrow> int \<Rightarrow> int list" where
  "from_node A n = sorted_list_of_set {x \<in> A. n < x}"

lemma set_from_node [simp]: "finite A \<Longrightarrow> set (from_node A n) = {x \<in> A. n < x}"
  by (simp add: from_node_def)

lemma sorted_from_node [simp]: "sorted (from_node A n)"
  by (simp add: from_node_def)

lemma distinct_from_node [simp]: "distinct (from_node A n)"
  by (simp add: from_node_def)

lemma from_node_unfold:
  assumes "finite A" and "A \<subseteq> {0..}"
  shows "from_node A n = (if next_in A n = -1 then [] else next_in A n # from_node A (next_in A n))"
proof (cases "next_in A n = -1")
  case True
  have "{x \<in> A. n < x} = {}"
  proof (rule ccontr)
    assume "{x \<in> A. n < x} \<noteq> {}"
    then have "Min {x \<in> A. n < x} \<in> {x \<in> A. n < x}" using assms(1) by (intro Min_in) auto
    then have "next_in A n \<in> A" using \<open>{x \<in> A. n < x} \<noteq> {}\<close> by (auto simp: next_in_def)
    then show False using True assms(2) by auto
  qed
  then have "from_node A n = []" unfolding from_node_def by (metis sorted_list_of_set_empty)
  then show ?thesis using True by simp
next
  case False
  then have m: "next_in A n \<in> A" "n < next_in A n" "\<forall>y\<in>A. n < y \<longrightarrow> next_in A n \<le> y"
    using next_in_mem [OF assms False] by auto
  have split: "{x \<in> A. n < x} = insert (next_in A n) {x \<in> A. next_in A n < x}"
    using m by force
  have "sorted_list_of_set (insert (next_in A n) {x \<in> A. next_in A n < x})
      = next_in A n # sorted_list_of_set {x \<in> A. next_in A n < x}"
    using assms(1) m
    by (simp add: insort_is_Cons)
  then show ?thesis using False split by (simp add: from_node_def)
qed

lemma from_node_cong: "(\<And>x. n < x \<Longrightarrow> x \<in> A \<longleftrightarrow> x \<in> B) \<Longrightarrow> from_node A n = from_node B n"
  unfolding from_node_def by (metis (mono_tags, lifting) Collect_cong)

lemma from_start: "A \<subseteq> {0..} \<Longrightarrow> from_node A (-1) = sorted_list_of_set A"
  unfolding from_node_def by (rule arg_cong [of _ _ sorted_list_of_set]) auto

text \<open>The members a filtering walk keeps, and the pure decision it makes on the way.\<close>

fun kept :: "('b \<Rightarrow> int \<Rightarrow> bool) \<Rightarrow> ('b \<Rightarrow> int \<Rightarrow> 'b) \<Rightarrow> 'b \<Rightarrow> int list \<Rightarrow> int list" where
  "kept keep upd b [] = []"
| "kept keep upd b (x # xs) = (if keep b x then [x] else []) @ kept keep upd (upd b x) xs"

lemma set_kept: "set (kept keep upd b xs) \<subseteq> set xs"
  by (induction xs arbitrary: b) auto

lemma kept_const: "kept (\<lambda>_. P) upd b xs = filter P xs"
  by (induction xs arbitrary: b) auto

section \<open>Iterators\<close>

locale node_iterator =
  fixes nxt :: "'c \<Rightarrow> int \<Rightarrow> ('s, int) state"
    and els :: "'c \<Rightarrow> int set"
    and ok :: "'s \<Rightarrow> 'c \<Rightarrow> bool"
  assumes els_finite: "ok s c \<Longrightarrow> finite (els c)"
    and els_nonneg: "ok s c \<Longrightarrow> els c \<subseteq> {0..}"
    and nxt_run: "ok s c \<Longrightarrow> -1 \<le> n \<Longrightarrow> run_state (nxt c n) s = (next_in (els c) n, s)"
begin

lemma walk_foldM_aux:
  assumes body: "\<And>c b node s c' b' s'. R s c \<Longrightarrow> ok s c \<Longrightarrow> node \<in> els c \<Longrightarrow>
      run_state (body c b node) s = ((c', b'), s') \<Longrightarrow>
      R s' c' \<and> ok s' c' \<and> (\<forall>m. node < m \<longrightarrow> (m \<in> els c' \<longleftrightarrow> m \<in> els c))"
  shows "R s c \<Longrightarrow> ok s c \<Longrightarrow> -1 \<le> n \<Longrightarrow> length (from_node (els c) n) < fuel \<Longrightarrow>
    run_state (walk nxt body fuel c b (next_in (els c) n)) s =
      map_prod Some id (run_state (foldM (\<lambda>cb x. body (fst cb) (snd cb) x) (c, b) (from_node (els c) n)) s)"
proof (induction "from_node (els c) n" arbitrary: c b n s fuel)
  case Nil
  have "next_in (els c) n = -1"
    using Nil(1) from_node_unfold [OF els_finite [OF Nil(3)] els_nonneg [OF Nil(3)], of n]
    by (simp split: if_splits)
  then show ?case using Nil(1) [symmetric] Nil(5) by (cases fuel) simp_all
next
  case (Cons x xs)
  let ?m = "next_in (els c) n"
  have fin: "finite (els c)" "els c \<subseteq> {0..}"
    using els_finite [OF Cons(4)] els_nonneg [OF Cons(4)] by auto
  have m: "?m \<noteq> -1" "x = ?m" "xs = from_node (els c) ?m"
    using Cons(2) from_node_unfold [OF fin, of n] by (simp_all split: if_splits)
  then have mem: "?m \<in> els c" "0 \<le> ?m" using next_in_mem [OF fin m(1)] fin(2) by auto
  obtain k where k: "fuel = Suc k" using Cons(6) by (cases fuel) auto
  obtain c' b' s' where run: "run_state (body c b ?m) s = ((c', b'), s')"
    by (metis surj_pair)
  have ok': "R s' c'" "ok s' c'" and same: "\<forall>j. ?m < j \<longrightarrow> (j \<in> els c' \<longleftrightarrow> j \<in> els c)"
    using body [OF Cons(3,4) mem(1) run] by auto
  have xs: "xs = from_node (els c') ?m"
    using m(3) same by (simp add: from_node_cong [of ?m "els c'" "els c"])
  have "run_state (walk nxt body k c' b' (next_in (els c') ?m)) s' =
      map_prod Some id (run_state (foldM (\<lambda>cb x. body (fst cb) (snd cb) x) (c', b') xs) s')"
    using Cons(1) [OF xs ok'(1,2)] mem(2) Cons(6) k xs by (simp add: Cons(2) [symmetric])
  then show ?case
    using k m run ok' mem(2) by (simp add: Cons(2) [symmetric] nxt_run [OF ok'(2), of ?m])
qed

text \<open>Walking from the start folds over all members in ascending order.\<close>

lemma walk_foldM:
  assumes "\<And>c b node s c' b' s'. R s c \<Longrightarrow> ok s c \<Longrightarrow> node \<in> els c \<Longrightarrow>
      run_state (body c b node) s = ((c', b'), s') \<Longrightarrow>
      R s' c' \<and> ok s' c' \<and> (\<forall>m. node < m \<longrightarrow> (m \<in> els c' \<longleftrightarrow> m \<in> els c))"
    and "R s c" and "ok s c" and "card (els c) < fuel"
  shows "run_state (do { node \<leftarrow> nxt c (-1); walk nxt body fuel c b node }) s =
    map_prod Some id (run_state
      (foldM (\<lambda>cb x. body (fst cb) (snd cb) x) (c, b) (sorted_list_of_set (els c))) s)"
proof -
  have fs: "from_node (els c) (-1) = sorted_list_of_set (els c)"
    using els_nonneg [OF assms(3)] by (rule from_start)
  then have len: "length (from_node (els c) (-1)) < fuel" using assms(4) by simp
  show ?thesis
    using walk_foldM_aux [of R body s c "-1" fuel b, OF assms(1,2,3) _ len] fs
    by (simp add: nxt_run [OF assms(3)])
qed

text \<open>An iteration visits exactly the members, in ascending order.\<close>

lemma walk_collect:
  assumes "ok s c" and "card (els c) < fuel"
  shows "run_state (do { node \<leftarrow> nxt c (-1);
      walk nxt (\<lambda>c xs x. return (c, xs @ [x])) fuel c [] node }) s
    = (Some (c, sorted_list_of_set (els c)), s)"
proof -
  have "run_state (foldM (\<lambda>cb x. return (fst cb, snd cb @ [x])) (c, ys) xs) s = ((c, ys @ xs), s)"
    for xs ys :: "int list" by (induction xs arbitrary: ys) simp_all
  from this [of "[]"] show ?thesis
    using walk_foldM [OF _ _ assms, of "\<lambda>_ _. True" "\<lambda>c xs x. return (c, xs @ [x])" "[]"] by simp
qed

end

section \<open>Node sets\<close>

locale node_set_adt = node_iterator nxt els ok
  for nxt :: "'c \<Rightarrow> int \<Rightarrow> ('s, int) state" and els :: "'c \<Rightarrow> int set" and ok :: "'s \<Rightarrow> 'c \<Rightarrow> bool" +
  fixes bound :: "'s \<Rightarrow> int"
    and add :: "'c \<Rightarrow> int \<Rightarrow> ('s, 'c \<times> int) state"
    and rem :: "'c \<Rightarrow> int \<Rightarrow> ('s, 'c \<times> int) state"
    and contains :: "'c \<Rightarrow> int \<Rightarrow> ('s, int) state"
    and weight :: "'c \<Rightarrow> ('s, int) state"
  assumes els_bound: "ok s c \<Longrightarrow> els c \<subseteq> {0..<bound s}"
    and add_run: "ok s c \<Longrightarrow> \<exists>c'. run_state (add c n) s = ((c', if 0 \<le> n \<and> n < bound s then 0 else -1), s) \<and>
        ok s c' \<and> els c' = els c \<union> ({n} \<inter> {0..<bound s})"
    and rem_run: "ok s c \<Longrightarrow> \<exists>c'. run_state (rem c n) s = ((c', if 0 \<le> n \<and> n < bound s then 0 else -1), s) \<and>
        ok s c' \<and> els c' = els c - {n}"
    and contains_run: "ok s c \<Longrightarrow> \<exists>r. run_state (contains c n) s = (r, s) \<and> (r \<noteq> 0 \<longleftrightarrow> n \<in> els c)"
    and weight_run: "ok s c \<Longrightarrow> run_state (weight c) s = (int (card (els c)), s)"
begin

lemma card_bound: "ok s c \<Longrightarrow> card (els c) < Suc (nat (bound s))"
  using card_mono [OF _ els_bound, of s c] by fastforce

text \<open>Adding a list of nodes one after the other, as the parsers of krgadm do.\<close>

lemma add_all:
  assumes "ok s c"
  shows "\<exists>c'. run_state (foldM (\<lambda>c n. do { cr \<leftarrow> add c n; return (fst cr) }) c ns) s = (c', s) \<and>
    ok s c' \<and> els c' = els c \<union> (set ns \<inter> {0..<bound s})"
  using assms
proof (induction ns arbitrary: c)
  case Nil
  then show ?case by simp
next
  case (Cons n ns)
  obtain c' where c': "run_state (add c n) s = ((c', if 0 \<le> n \<and> n < bound s then 0 else -1), s)"
      "ok s c'" "els c' = els c \<union> ({n} \<inter> {0..<bound s})"
    using add_run [OF Cons.prems] by blast
  show ?case using Cons.IH [OF c'(2)] c' by (auto simp del: run_if)
qed

text \<open>
  The filtering walk: a body that, deciding with a carried value \<open>b\<close>, either keeps the set or
  removes the current node leaves exactly the members it chose to keep.  \<open>R\<close> is what the body
  keeps true of the state and the set.
\<close>

lemma walk_filter:
  assumes body: "\<And>c b x s. R s c \<Longrightarrow> ok s c \<Longrightarrow> x \<in> els c \<Longrightarrow>
      \<exists>c' s'. run_state (body c b x) s = ((c', upd b x), s') \<and> R s' c' \<and> ok s' c' \<and>
        els c' = (if keep b x then els c else els c - {x})"
    and "R s c" and "ok s c" and "nat (bound s) < fuel"
  shows "\<exists>c' s'. run_state (do { node \<leftarrow> nxt c (-1); walk nxt body fuel c b node }) s
      = (Some (c', foldl upd b (sorted_list_of_set (els c))), s') \<and> R s' c' \<and> ok s' c' \<and>
      els c' = set (kept keep upd b (sorted_list_of_set (els c)))"
proof -
  have fold: "R s c \<Longrightarrow> ok s c \<Longrightarrow> set xs \<subseteq> els c \<Longrightarrow> distinct xs \<Longrightarrow>
      \<exists>c' s'. run_state (foldM (\<lambda>cb x. body (fst cb) (snd cb) x) (c, b) xs) s
      = ((c', foldl upd b xs), s') \<and> R s' c' \<and> ok s' c' \<and>
        els c' = els c - set xs \<union> set (kept keep upd b xs)" for c b s xs
  proof (induction xs arbitrary: c b s)
    case Nil
    then show ?case by simp
  next
    case (Cons x xs)
    obtain c1 s1 where 1: "run_state (body c b x) s = ((c1, upd b x), s1)" "R s1 c1" "ok s1 c1"
        "els c1 = (if keep b x then els c else els c - {x})"
      using body [OF Cons.prems(1,2), of x b] Cons.prems(3) by auto
    have "set xs \<subseteq> els c1" "distinct xs" using 1(4) Cons.prems(3,4) by auto
    from Cons.IH [OF 1(2,3) this, of "upd b x"] obtain c' s' where
      "run_state (foldM (\<lambda>cb x. body (fst cb) (snd cb) x) (c1, upd b x) xs) s1
        = ((c', foldl upd (upd b x) xs), s')" "R s' c'" "ok s' c'"
      "els c' = els c1 - set xs \<union> set (kept keep upd (upd b x) xs)" by blast
    moreover have "els c1 - set xs \<union> set (kept keep upd (upd b x) xs)
        = els c - set (x # xs) \<union> set (kept keep upd b (x # xs))"
      using 1(4) Cons.prems(3,4) by auto
    ultimately show ?case using 1(1) by auto
  qed
  have fin: "set (sorted_list_of_set (els c)) = els c" using els_finite [OF assms(3)] by simp
  have fuel: "card (els c) < fuel" using card_bound [OF assms(3)] assms(4) by linarith
  have step: "R s' c' \<and> ok s' c' \<and> (\<forall>m. node < m \<longrightarrow> (m \<in> els c' \<longleftrightarrow> m \<in> els c))"
    if "R s c" "ok s c" "node \<in> els c" "run_state (body c b node) s = ((c', b'), s')"
    for c b node s c' b' s'
    using body [OF that(1-3), of b] that(4) by (auto split: if_splits)
  show ?thesis
    using walk_foldM [of R body s c fuel b, OF step assms(2,3) fuel]
      fold [OF assms(2,3), of "sorted_list_of_set (els c)" b] fin
    by (auto simp: map_prod_def simp del: run_state_bind)
qed

end

end
