(* ===== verification/Hotplug.thy ===== *)
theory Hotplug
  imports Services Nodemask Node_Set_Spec
begin

text \<open>
  \<^verbatim>\<open>libs/libkerrighed/libhotplug.c\<close>: node tables, node sets, cluster tables, the cached limits of
  the cluster, and the hotplug services.  The globals \<^verbatim>\<open>kerrighed_max_nodes\<close> and
  \<^verbatim>\<open>kerrighed_max_clusters\<close> extend the process state.  An array on the heap is the list of its
  bytes; a pointer to a structure is an \<open>option\<close> (\<open>None\<close> for NULL), and a function that updates
  a structure through a pointer returns the updated structure with its result.  The theory
  interprets the interfaces of \<open>Node_Set_Spec\<close> for these definitions.
\<close>

section \<open>State and data\<close>

record krg = os +
  kerrighed_max_nodes :: int
  kerrighed_max_clusters :: int

record krg_nodes =
  nodes_tab :: "int list"

record krg_clusters =
  clusters_tab :: "int list"

record krg_node_set =
  subclusterid :: int
  ns_v :: "int list"

definition krg_status_str :: "int \<Rightarrow> string" where
  "krg_status_str s =
     (let s' = (if s \<le> 0 \<or> s > status_code HOTPLUG_NODE_ONLINE
                then status_code HOTPLUG_NODE_INVALID else s)
      in [''invalid'', ''possible'', ''present'', ''online''] ! nat s')"

section \<open>Node tables\<close>

definition krg_nodes_create :: "('a krg_scheme, krg_nodes option) state" where
  "krg_nodes_create = do {
     item \<leftarrow> malloc 8;
     case item of None \<Rightarrow> return None
     | Some _ \<Rightarrow> do {
         n \<leftarrow> gets kerrighed_max_nodes;
         t \<leftarrow> malloc n;
         case t of None \<Rightarrow> do { free; return None }
         | Some xs \<Rightarrow> return (Some \<lparr>nodes_tab = xs\<rparr>) } }"

definition krg_nodes_destroy :: "krg_nodes option \<Rightarrow> ('a krg_scheme, unit) state" where
  "krg_nodes_destroy item = (case item of None \<Rightarrow> return () | Some _ \<Rightarrow> do { free; free })"

definition krg_nodes_num :: "krg_nodes \<Rightarrow> krg_status \<Rightarrow> ('a krg_scheme, int) state" where
  "krg_nodes_num nodes s = do {
     n \<leftarrow> gets kerrighed_max_nodes;
     foldM (\<lambda>ret bcl. do {
       x \<leftarrow> load (nodes_tab nodes) bcl;
       return (if x = status_code s then ret + 1 else ret) }) 0 [0..n - 1] }"

definition krg_nodes_num_possible :: "krg_nodes \<Rightarrow> ('a krg_scheme, int) state" where
  "krg_nodes_num_possible nodes = krg_nodes_num nodes HOTPLUG_NODE_POSSIBLE"

definition krg_nodes_num_present :: "krg_nodes \<Rightarrow> ('a krg_scheme, int) state" where
  "krg_nodes_num_present nodes = krg_nodes_num nodes HOTPLUG_NODE_PRESENT"

definition krg_nodes_num_online :: "krg_nodes \<Rightarrow> ('a krg_scheme, int) state" where
  "krg_nodes_num_online nodes = krg_nodes_num nodes HOTPLUG_NODE_ONLINE"

definition krg_nodes_is :: "krg_nodes \<Rightarrow> int \<Rightarrow> krg_status \<Rightarrow> ('a krg_scheme, int) state" where
  "krg_nodes_is nodes n s = do {
     mx \<leftarrow> gets kerrighed_max_nodes;
     if 0 \<le> n \<and> n < mx then do {
       x \<leftarrow> load (nodes_tab nodes) n;
       return (if x = status_code s then 1 else 0) }
     else return (-1) }"

definition krg_nodes_is_possible :: "krg_nodes \<Rightarrow> int \<Rightarrow> ('a krg_scheme, int) state" where
  "krg_nodes_is_possible nodes n = krg_nodes_is nodes n HOTPLUG_NODE_POSSIBLE"

definition krg_nodes_is_present :: "krg_nodes \<Rightarrow> int \<Rightarrow> ('a krg_scheme, int) state" where
  "krg_nodes_is_present nodes n = krg_nodes_is nodes n HOTPLUG_NODE_PRESENT"

definition krg_nodes_is_online :: "krg_nodes \<Rightarrow> int \<Rightarrow> ('a krg_scheme, int) state" where
  "krg_nodes_is_online nodes n = krg_nodes_is nodes n HOTPLUG_NODE_ONLINE"

text \<open>The search loop of the three \<^verbatim>\<open>next\<close> functions, from \<^verbatim>\<open>node + 1\<close> up to the last node.\<close>

definition scan_next :: "int list \<Rightarrow> (int \<Rightarrow> bool) \<Rightarrow> int \<Rightarrow> ('a krg_scheme, int) state" where
  "scan_next tab p node = do {
     mx \<leftarrow> gets kerrighed_max_nodes;
     r \<leftarrow> firstM (\<lambda>bcl. do { x \<leftarrow> load tab bcl; return (p x) }) [node + 1..mx - 1];
     return (case r of None \<Rightarrow> -1 | Some bcl \<Rightarrow> bcl) }"

definition krg_nodes_next :: "krg_nodes \<Rightarrow> int \<Rightarrow> krg_status \<Rightarrow> ('a krg_scheme, int) state" where
  "krg_nodes_next nodes node s = scan_next (nodes_tab nodes) (\<lambda>x. x = status_code s) node"

definition krg_nodes_next_online :: "krg_nodes \<Rightarrow> int \<Rightarrow> ('a krg_scheme, int) state" where
  "krg_nodes_next_online nodes node = krg_nodes_next nodes node HOTPLUG_NODE_ONLINE"

definition krg_nodes_next_possible :: "krg_nodes \<Rightarrow> int \<Rightarrow> ('a krg_scheme, int) state" where
  "krg_nodes_next_possible nodes node = krg_nodes_next nodes node HOTPLUG_NODE_POSSIBLE"

definition krg_nodes_next_present :: "krg_nodes \<Rightarrow> int \<Rightarrow> ('a krg_scheme, int) state" where
  "krg_nodes_next_present nodes node = krg_nodes_next nodes node HOTPLUG_NODE_PRESENT"

definition krg_nodes_getnode :: "krg_nodes \<Rightarrow> int \<Rightarrow> ('a krg_scheme, int) state" where
  "krg_nodes_getnode nodes n = do {
     mx \<leftarrow> gets kerrighed_max_nodes;
     if 0 \<le> n \<and> n < mx then load (nodes_tab nodes) n
     else return (status_code HOTPLUG_NODE_INVALID) }"

definition krg_nodes_nextnode :: "krg_nodes \<Rightarrow> int \<Rightarrow> ('a krg_scheme, int) state" where
  "krg_nodes_nextnode nodes node =
     scan_next (nodes_tab nodes) (\<lambda>x. x > status_code HOTPLUG_NODE_INVALID) node"

section \<open>Cluster tables\<close>

definition krg_clusters_create :: "('a krg_scheme, krg_clusters option) state" where
  "krg_clusters_create = do {
     item \<leftarrow> malloc 8;
     case item of None \<Rightarrow> return None
     | Some _ \<Rightarrow> do {
         n \<leftarrow> gets kerrighed_max_clusters;
         t \<leftarrow> malloc n;
         case t of None \<Rightarrow> do { free; return None }
         | Some xs \<Rightarrow> return (Some \<lparr>clusters_tab = xs\<rparr>) } }"

definition krg_clusters_destroy :: "krg_clusters option \<Rightarrow> ('a krg_scheme, unit) state" where
  "krg_clusters_destroy item = (case item of None \<Rightarrow> return () | Some _ \<Rightarrow> do { free; free })"

definition krg_clusters_is_up :: "krg_clusters \<Rightarrow> int \<Rightarrow> ('a krg_scheme, int) state" where
  "krg_clusters_is_up item n = do {
     mx \<leftarrow> gets kerrighed_max_clusters;
     if 0 \<le> n \<and> n < mx then do {
       x \<leftarrow> load (clusters_tab item) n;
       return (if x \<noteq> 0 then 1 else 0) }
     else return (-1) }"

section \<open>Node sets\<close>

definition krg_node_set_clear :: "krg_node_set \<Rightarrow> ('a krg_scheme, krg_node_set) state" where
  "krg_node_set_clear item = do {
     mx \<leftarrow> gets kerrighed_max_nodes;
     v' \<leftarrow> foldM (\<lambda>xs bcl. store xs bcl 0) (ns_v item) [0..mx - 1];
     return \<lparr>subclusterid = 0, ns_v = v'\<rparr> }"

definition krg_node_set_create :: "('a krg_scheme, krg_node_set option) state" where
  "krg_node_set_create = do {
     item \<leftarrow> malloc 16;
     case item of None \<Rightarrow> return None
     | Some _ \<Rightarrow> do {
         n \<leftarrow> gets kerrighed_max_nodes;
         t \<leftarrow> malloc n;
         case t of None \<Rightarrow> do { free; return None }
         | Some xs \<Rightarrow> do {
             ns \<leftarrow> krg_node_set_clear \<lparr>subclusterid = 0, ns_v = xs\<rparr>;
             return (Some ns) } } }"

definition krg_node_set_destroy :: "krg_node_set option \<Rightarrow> ('a krg_scheme, unit) state" where
  "krg_node_set_destroy item = (case item of None \<Rightarrow> return () | Some _ \<Rightarrow> do { free; free })"

definition krg_node_set_add :: "krg_node_set \<Rightarrow> int \<Rightarrow> ('a krg_scheme, krg_node_set \<times> int) state" where
  "krg_node_set_add item n = do {
     mx \<leftarrow> gets kerrighed_max_nodes;
     if 0 \<le> n \<and> n < mx then do {
       v' \<leftarrow> store (ns_v item) n 1;
       return (item\<lparr>ns_v := v'\<rparr>, 0) }
     else return (item, -1) }"

definition krg_node_set_remove :: "krg_node_set \<Rightarrow> int \<Rightarrow> ('a krg_scheme, krg_node_set \<times> int) state" where
  "krg_node_set_remove item n = do {
     mx \<leftarrow> gets kerrighed_max_nodes;
     if 0 \<le> n \<and> n < mx then do {
       v' \<leftarrow> store (ns_v item) n 0;
       return (item\<lparr>ns_v := v'\<rparr>, 0) }
     else return (item, -1) }"

definition krg_node_set_contains :: "krg_node_set \<Rightarrow> int \<Rightarrow> ('a krg_scheme, int) state" where
  "krg_node_set_contains node_set n = do {
     mx \<leftarrow> gets kerrighed_max_nodes;
     if 0 \<le> n \<and> n < mx then load (ns_v node_set) n else return 0 }"

definition krg_node_set_weight :: "krg_node_set \<Rightarrow> ('a krg_scheme, int) state" where
  "krg_node_set_weight node_set = do {
     mx \<leftarrow> gets kerrighed_max_nodes;
     foldM (\<lambda>r bcl. do {
       x \<leftarrow> load (ns_v node_set) bcl;
       return (if x \<noteq> 0 then r + 1 else r) }) 0 [0..mx - 1] }"

definition krg_node_set_next :: "krg_node_set \<Rightarrow> int \<Rightarrow> ('a krg_scheme, int) state" where
  "krg_node_set_next node_set node = scan_next (ns_v node_set) (\<lambda>x. x \<noteq> 0) node"

definition krg_nodes_get :: "krg_nodes \<Rightarrow> krg_status \<Rightarrow> ('a krg_scheme, krg_node_set option) state" where
  "krg_nodes_get nodes s = do {
     r \<leftarrow> krg_node_set_create;
     case r of None \<Rightarrow> return None
     | Some ns \<Rightarrow> do {
         mx \<leftarrow> gets kerrighed_max_nodes;
         ns' \<leftarrow> foldM (\<lambda>ns bcl. do {
             x \<leftarrow> load (nodes_tab nodes) bcl;
             if x = status_code s then do { ar \<leftarrow> krg_node_set_add ns bcl; return (fst ar) }
             else return ns }) ns [0..mx - 1];
         return (Some ns') } }"

definition krg_nodes_get_online :: "krg_nodes \<Rightarrow> ('a krg_scheme, krg_node_set option) state" where
  "krg_nodes_get_online nodes = krg_nodes_get nodes HOTPLUG_NODE_ONLINE"

definition krg_nodes_get_possible :: "krg_nodes \<Rightarrow> ('a krg_scheme, krg_node_set option) state" where
  "krg_nodes_get_possible nodes = krg_nodes_get nodes HOTPLUG_NODE_POSSIBLE"

definition krg_nodes_get_present :: "krg_nodes \<Rightarrow> ('a krg_scheme, krg_node_set option) state" where
  "krg_nodes_get_present nodes = krg_nodes_get nodes HOTPLUG_NODE_PRESENT"

section \<open>Limits of the cluster\<close>

text \<open>What a service that fills an \<^verbatim>\<open>int\<close> leaves in it: its old value if the kernel wrote nothing.\<close>

definition data_int :: "int \<Rightarrow> kdata \<Rightarrow> int" where
  "data_int old d = (case d of DInt i \<Rightarrow> i | _ \<Rightarrow> old)"

definition krg_get_max_nodes :: "('a krg_scheme, int) state" where
  "krg_get_max_nodes = do {
     m \<leftarrow> gets kerrighed_max_nodes;
     if m = -1 then do {
       r \<leftarrow> call_kerrighed_services KSYS_NB_MAX_NODES (DInt m);
       modify (\<lambda>s. s\<lparr>kerrighed_max_nodes := data_int m (snd r)\<rparr>);
       if fst r \<noteq> 0 then do { set_errno EPERM; return (-1) }
       else gets kerrighed_max_nodes }
     else return m }"

definition krg_get_max_clusters :: "('a krg_scheme, int) state" where
  "krg_get_max_clusters = do {
     m \<leftarrow> gets kerrighed_max_clusters;
     if m = -1 then do {
       r \<leftarrow> call_kerrighed_services KSYS_NB_MAX_CLUSTERS (DInt m);
       modify (\<lambda>s. s\<lparr>kerrighed_max_clusters := data_int m (snd r)\<rparr>);
       if fst r \<noteq> 0 then do { set_errno EPERM; return (-1) }
       else gets kerrighed_max_clusters }
     else return m }"

definition krg_hotplug_init :: "('a krg_scheme, int) state" where
  "krg_hotplug_init = do {
     m \<leftarrow> krg_get_max_nodes;
     modify (\<lambda>s. s\<lparr>kerrighed_max_nodes := m\<rparr>);
     if m = -1 then return (-1)
     else do {
       c \<leftarrow> krg_get_max_clusters;
       modify (\<lambda>s. s\<lparr>kerrighed_max_clusters := c\<rparr>);
       if c = -1 then return (-1) else return 0 } }"

definition krg_check_hotplug :: "('a krg_scheme, int) state" where
  "krg_check_hotplug = do {
     r \<leftarrow> call_service KSYS_GET_NODE_ID NoData;
     return (if r \<noteq> 0 then -1 else 0) }"

definition krg_check_container :: "('a krg_scheme, int) state" where
  "krg_check_container = do {
     r \<leftarrow> syscall (Stat ''/proc/nodes/self'');
     return (if resp_ret r \<noteq> 0 then -1 else 0) }"

section \<open>Hotplug services\<close>

text \<open>The loop that copies a node set into a kernel mask.\<close>

definition fill_mask :: "krg_node_set \<Rightarrow> ('a krg_scheme, krgnodemask) state" where
  "fill_mask ns = do {
     mx \<leftarrow> gets kerrighed_max_nodes;
     foldM (\<lambda>m i. do {
       x \<leftarrow> load (ns_v ns) i;
       if x \<noteq> 0 then krgnode_set i m else return m }) krgnodes_clear [0..mx - 1] }"

definition krg_nodes_add :: "krg_node_set \<Rightarrow> ('a krg_scheme, int) state" where
  "krg_nodes_add ns = do {
     m \<leftarrow> fill_mask ns;
     call_service KSYS_HOTPLUG_ADD (DMask \<lparr>hns_subclusterid = subclusterid ns, hns_v = m\<rparr>) }"

definition krg_nodes_remove :: "krg_node_set \<Rightarrow> ('a krg_scheme, int) state" where
  "krg_nodes_remove ns = do {
     m \<leftarrow> fill_mask ns;
     call_service KSYS_HOTPLUG_REMOVE (DMask \<lparr>hns_subclusterid = subclusterid ns, hns_v = m\<rparr>) }"

text \<open>The next two do not assign the subcluster of the local \<^verbatim>\<open>struct hotplug_node_set\<close>.\<close>

definition krg_nodes_fail :: "krg_node_set \<Rightarrow> ('a krg_scheme, int) state" where
  "krg_nodes_fail ns = do {
     junk \<leftarrow> uninit;
     m \<leftarrow> fill_mask ns;
     call_service KSYS_HOTPLUG_FAIL (DMask \<lparr>hns_subclusterid = junk, hns_v = m\<rparr>) }"

definition krg_nodes_poweroff :: "krg_node_set \<Rightarrow> ('a krg_scheme, int) state" where
  "krg_nodes_poweroff ns = do {
     junk \<leftarrow> uninit;
     m \<leftarrow> fill_mask ns;
     call_service KSYS_HOTPLUG_POWEROFF (DMask \<lparr>hns_subclusterid = junk, hns_v = m\<rparr>) }"

text \<open>The bytes the kernel copied to the start of a buffer.\<close>

definition overwrite :: "int list \<Rightarrow> int list \<Rightarrow> int list" where
  "overwrite buf xs = take (length buf) xs @ drop (length xs) buf"

definition krg_nodes_status :: "('a krg_scheme, krg_nodes option) state" where
  "krg_nodes_status = do {
     kn \<leftarrow> krg_nodes_create;
     case kn of None \<Rightarrow> return None
     | Some nodes \<Rightarrow> do {
         r \<leftarrow> call_kerrighed_services KSYS_HOTPLUG_NODES NoData;
         if fst r \<noteq> 0 then do { krg_nodes_destroy kn; return None }
         else return (Some (nodes\<lparr>nodes_tab := overwrite (nodes_tab nodes) (data_ints (snd r))\<rparr>)) } }"

definition krg_cluster_status :: "('a krg_scheme, krg_clusters option) state" where
  "krg_cluster_status = do {
     kc \<leftarrow> krg_clusters_create;
     case kc of None \<Rightarrow> return None
     | Some clusters \<Rightarrow> do {
         r \<leftarrow> call_kerrighed_services KSYS_HOTPLUG_STATUS NoData;
         if fst r \<noteq> 0 then do { krg_clusters_destroy kc; return None }
         else do {
           mx \<leftarrow> gets kerrighed_max_clusters;
           bytes \<leftarrow> traverse_list (load (pad_block 256 (data_ints (snd r)))) [0..mx - 1];
           return (Some (clusters\<lparr>clusters_tab := overwrite (clusters_tab clusters) bytes\<rparr>)) } } }"

definition krg_set_cluster_creator :: "int \<Rightarrow> ('a krg_scheme, int) state" where
  "krg_set_cluster_creator enable =
     call_service KSYS_HOTPLUG_SET_CREATOR (if enable \<noteq> 0 then DInt 1 else NoData)"

definition krg_node_ready :: "int \<Rightarrow> ('a krg_scheme, int) state" where
  "krg_node_ready setup_ok = call_service KSYS_HOTPLUG_READY (if setup_ok \<noteq> 0 then NoData else DInt 1)"

definition krg_cluster_shutdown :: "int \<Rightarrow> ('a krg_scheme, int) state" where
  "krg_cluster_shutdown sub = call_service KSYS_HOTPLUG_SHUTDOWN (DInt sub)"

definition krg_cluster_reboot :: "int \<Rightarrow> ('a krg_scheme, int) state" where
  "krg_cluster_reboot sub = call_service KSYS_HOTPLUG_RESTART (DInt sub)"

section \<open>Abstraction\<close>

text \<open>
  The member sets of tables and node sets; a table or set is \<open>ok\<close> in a state when its array has
  one byte per possible node.
\<close>

definition tab_set :: "int list \<Rightarrow> (int \<Rightarrow> bool) \<Rightarrow> int set" where
  "tab_set tab p = {n. 0 \<le> n \<and> n < int (length tab) \<and> p (tab ! nat n)}"

definition elems :: "krg_node_set \<Rightarrow> int set" where
  "elems ns = tab_set (ns_v ns) (\<lambda>x. x \<noteq> 0)"

definition in_status :: "krg_nodes \<Rightarrow> krg_status \<Rightarrow> int set" where
  "in_status t st = tab_set (nodes_tab t) (\<lambda>x. x = status_code st)"

definition tab_ok :: "'a krg_scheme \<Rightarrow> int list \<Rightarrow> bool" where
  "tab_ok s tab \<longleftrightarrow> int (length tab) = kerrighed_max_nodes s"

definition node_set_ok :: "'a krg_scheme \<Rightarrow> krg_node_set \<Rightarrow> bool" where
  "node_set_ok s ns \<longleftrightarrow> tab_ok s (ns_v ns)"

definition nodes_ok :: "'a krg_scheme \<Rightarrow> krg_nodes \<Rightarrow> bool" where
  "nodes_ok s t \<longleftrightarrow> tab_ok s (nodes_tab t)"

lemmas ok_defs = node_set_ok_def nodes_ok_def tab_ok_def

lemma frame_krg:
  assumes "frame s s'"
  shows "kerrighed_max_nodes s' = kerrighed_max_nodes s"
    and "kerrighed_max_clusters s' = kerrighed_max_clusters s"
  using assms unfolding frame_def by (cases s; cases s'; simp)+

lemma after_krg [simp]:
  "kerrighed_max_nodes (after q s) = kerrighed_max_nodes s"
  "kerrighed_max_clusters (after q s) = kerrighed_max_clusters s"
  by (simp_all add: after_def Let_def)

lemma ok_frame:
  assumes "frame s s'"
  shows "tab_ok s' tab = tab_ok s tab" and "node_set_ok s' ns = node_set_ok s ns"
    and "nodes_ok s' t = nodes_ok s t"
  using frame_krg [OF assms] by (simp_all add: ok_defs)

lemma tab_set_bounds: "finite (tab_set tab p)" "tab_set tab p \<subseteq> {0..<int (length tab)}"
  by (auto simp: tab_set_def intro: finite_subset [of _ "{0..<int (length tab)}"])

lemma tab_set_upto: "tab_set tab p = set (filter (\<lambda>n. p (tab ! nat n)) [0..int (length tab) - 1])"
  by (auto simp: tab_set_def)

lemma card_tab_set: "int (card (tab_set tab p)) = int (length (filter (\<lambda>n. p (tab ! nat n)) [0..int (length tab) - 1]))"
  unfolding tab_set_upto by (subst distinct_card) simp_all

lemma foldl_count: "foldl (\<lambda>r x. if P x then r + 1 else r) (a :: int) xs = a + int (length (filter P xs))"
  by (induction xs arbitrary: a) auto

lemma next_in_cong: "(\<And>x. n < x \<Longrightarrow> x \<in> A \<longleftrightarrow> x \<in> B) \<Longrightarrow> next_in A n = next_in B n"
  unfolding next_in_def by (metis (mono_tags, lifting) Collect_cong)

lemma run_scan_next:
  assumes "tab_ok s tab" and "-1 \<le> n"
  shows "run_state (scan_next tab p n) s = (next_in (tab_set tab p) n, s)"
proof -
  have "run_state (firstM (\<lambda>bcl. do { x \<leftarrow> load tab bcl; return (p x) }) [n + 1..kerrighed_max_nodes s - 1]) s
      = (List.find (\<lambda>bcl. p (tab ! nat bcl)) [n + 1..kerrighed_max_nodes s - 1], s)"
    using assms by (intro run_firstM_pure) (simp add: tab_ok_def)
  moreover have "next_in {x. n < x \<and> x < kerrighed_max_nodes s \<and> p (tab ! nat x)} n = next_in (tab_set tab p) n"
    using assms by (intro next_in_cong) (auto simp: tab_set_def tab_ok_def)
  ultimately show ?thesis
    using find_upto_next_in [of "\<lambda>x. p (tab ! nat x)" n "kerrighed_max_nodes s"]
    by (simp add: scan_next_def)
qed

lemma run_count_tab:
  assumes "tab_ok s tab"
  shows "run_state (do { mx \<leftarrow> gets kerrighed_max_nodes;
     foldM (\<lambda>r bcl. do { x \<leftarrow> load tab bcl; return (if p x then r + 1 else r) }) 0 [0..mx - 1] }) s
   = (int (card (tab_set tab p)), s)"
proof -
  have "run_state (foldM (\<lambda>r bcl. do { x \<leftarrow> load tab bcl; return (if p x then r + 1 else r) }) 0
      [0..kerrighed_max_nodes s - 1]) s
    = (foldl (\<lambda>r bcl. if p (tab ! nat bcl) then r + 1 else r) (0 :: int) [0..kerrighed_max_nodes s - 1], s)"
    using assms by (intro run_foldM_pure) (simp add: tab_ok_def)
  then show ?thesis
    using assms by (simp add: foldl_count card_tab_set tab_ok_def)
qed

lemma tab_set_update:
  "0 \<le> n \<Longrightarrow> n < int (length tab) \<Longrightarrow>
   tab_set (tab[nat n := x]) p = (if p x then insert n (tab_set tab p) else tab_set tab p - {n})"
  by (auto simp: tab_set_def nth_list_update)

section \<open>The node containers implement their interfaces\<close>

interpretation node_set: node_set_adt krg_node_set_next elems node_set_ok kerrighed_max_nodes
  krg_node_set_add krg_node_set_remove krg_node_set_contains krg_node_set_weight
proof unfold_locales
  fix s :: "'a krg_scheme" and c :: krg_node_set and n :: int
  assume ok: "node_set_ok s c"
  show "finite (elems c)" "elems c \<subseteq> {0..}" "elems c \<subseteq> {0..<kerrighed_max_nodes s}"
    using tab_set_bounds(1) [of "ns_v c"] ok by (auto simp: elems_def ok_defs tab_set_def)
  show "run_state (krg_node_set_weight c) s = (int (card (elems c)), s)"
    using run_count_tab [of s "ns_v c" "\<lambda>x. x \<noteq> 0"] ok
    by (simp add: krg_node_set_weight_def elems_def node_set_ok_def)
  show "\<exists>c'. run_state (krg_node_set_add c n) s =
      ((c', if 0 \<le> n \<and> n < kerrighed_max_nodes s then 0 else -1), s) \<and>
      node_set_ok s c' \<and> elems c' = elems c \<union> ({n} \<inter> {0..<kerrighed_max_nodes s})"
    using ok by (auto simp: krg_node_set_add_def elems_def ok_defs tab_set_update)
  show "\<exists>c'. run_state (krg_node_set_remove c n) s =
      ((c', if 0 \<le> n \<and> n < kerrighed_max_nodes s then 0 else -1), s) \<and>
      node_set_ok s c' \<and> elems c' = elems c - {n}"
    using ok by (auto simp: krg_node_set_remove_def elems_def ok_defs tab_set_def nth_list_update
        split: if_splits)
  show "\<exists>r. run_state (krg_node_set_contains c n) s = (r, s) \<and> (r \<noteq> 0 \<longleftrightarrow> n \<in> elems c)"
    using ok by (auto simp: krg_node_set_contains_def elems_def ok_defs tab_set_def)
next
  fix s :: "'a krg_scheme" and c :: krg_node_set and n :: int
  assume "node_set_ok s c" and "-1 \<le> n"
  then show "run_state (krg_node_set_next c n) s = (next_in (elems c) n, s)"
    by (simp add: krg_node_set_next_def elems_def node_set_ok_def run_scan_next)
qed

interpretation status_iter: node_iterator "\<lambda>t n. krg_nodes_next t n st" "\<lambda>t. in_status t st" nodes_ok
  for st
  using tab_set_bounds
  by unfold_locales
     (fastforce simp: in_status_def nodes_ok_def krg_nodes_next_def run_scan_next)+

interpretation valid_iter: node_iterator krg_nodes_nextnode
  "\<lambda>t. tab_set (nodes_tab t) (\<lambda>x. x > 0)" nodes_ok
  using tab_set_bounds
  by unfold_locales
     (fastforce simp: nodes_ok_def krg_nodes_nextnode_def run_scan_next)+

section \<open>Behaviour of the remaining operations\<close>

lemma run_nodes_num:
  "nodes_ok s t \<Longrightarrow> run_state (krg_nodes_num t st) s = (int (card (in_status t st)), s)"
  using run_count_tab [of s "nodes_tab t" "\<lambda>x. x = status_code st"]
  by (simp add: krg_nodes_num_def in_status_def nodes_ok_def)

lemma run_nodes_is:
  "nodes_ok s t \<Longrightarrow> 0 \<le> n \<Longrightarrow> n < kerrighed_max_nodes s \<Longrightarrow>
   run_state (krg_nodes_is t n st) s = (if n \<in> in_status t st then 1 else 0, s)"
  by (simp add: krg_nodes_is_def in_status_def tab_set_def ok_defs)

lemma in_status_bounds:
  "nodes_ok s t \<Longrightarrow> in_status t st \<subseteq> {0..<kerrighed_max_nodes s}" "finite (in_status t st)"
  by (simp_all add: in_status_def tab_set_bounds) (auto simp: tab_set_def ok_defs)

lemma foldl_clear:
  "(\<And>n. n \<in> set ns \<Longrightarrow> 0 \<le> n \<and> n < int (length xs)) \<Longrightarrow>
   run_state (foldM (\<lambda>xs bcl. store xs bcl 0) xs ns) s = (foldl (\<lambda>xs bcl. xs[nat bcl := 0]) xs ns, s) \<and>
   length (foldl (\<lambda>xs bcl. xs[nat bcl := (0::int)]) xs ns) = length xs \<and>
   (\<forall>i < length xs. foldl (\<lambda>xs bcl. xs[nat bcl := 0]) xs ns ! i = (if int i \<in> set ns then 0 else xs ! i))"
proof (induction ns arbitrary: xs)
  case (Cons n ns)
  then have n: "0 \<le> n" "n < int (length xs)" by auto
  have "\<And>m. m \<in> set ns \<Longrightarrow> 0 \<le> m \<and> m < int (length (xs[nat n := 0]))" using Cons.prems by auto
  note IH = Cons.IH [OF this]
  show ?case using IH n by (auto simp: nth_list_update)
qed simp

lemma run_clear:
  assumes "node_set_ok s ns"
  shows "\<exists>ns'. run_state (krg_node_set_clear ns) s = (ns', s) \<and> node_set_ok s ns' \<and> elems ns' = {}
    \<and> subclusterid ns' = 0"
proof -
  let ?ixs = "[0..kerrighed_max_nodes s - 1]"
  have "n \<in> set ?ixs \<Longrightarrow> 0 \<le> n \<and> n < int (length (ns_v ns))" for n
    using assms by (auto simp: ok_defs)
  note cl = foldl_clear [of ?ixs "ns_v ns" s, OF this]
  have "elems \<lparr>subclusterid = 0, ns_v = foldl (\<lambda>xs bcl. xs[nat bcl := 0]) (ns_v ns) ?ixs\<rparr> = {}"
    using cl assms by (auto simp: elems_def tab_set_def ok_defs)
  then show ?thesis
    using cl assms by (simp add: krg_node_set_clear_def ok_defs)
qed

definition can_malloc :: "'a os_scheme \<Rightarrow> bool" where
  "can_malloc s \<longleftrightarrow> (\<forall>tr n. resp_ret (answers s tr (Malloc n)) \<noteq> 0)"

lemma can_malloc_frame: "frame s s' \<Longrightarrow> can_malloc s' = can_malloc s"
  by (simp add: can_malloc_def frame_def)

lemma pad_block_max:
  "0 \<le> n \<Longrightarrow> n < 2 ^ 64 \<Longrightarrow> int (length (pad_block (nat (n mod 2 ^ 64)) xs)) = n"
  by simp

text \<open>Quiet steps: the history grew, but no service was called and no fault occurred.\<close>

definition quiet :: "'a os_scheme \<Rightarrow> 'a os_scheme \<Rightarrow> bool" where
  "quiet s s' \<longleftrightarrow> frame s s' \<and> ksys_calls (trace s') = ksys_calls (trace s) \<and>
     faults (trace s') = faults (trace s)"

lemma quiet_frame: "quiet s s' \<Longrightarrow> frame s s'"
  by (simp add: quiet_def)

lemma quiet_refl [simp]: "quiet s s"
  by (simp add: quiet_def)

lemma quiet_trans: "quiet s t \<Longrightarrow> quiet t u \<Longrightarrow> quiet s u"
  by (auto simp: quiet_def intro: frame_trans)

lemma quiet_malloc [simp]: "quiet s (after (Malloc n) s)"
  by (simp add: quiet_def faults_def)

lemma quiet_free [simp]: "quiet s (after Free s)"
  by (simp add: quiet_def faults_def)

lemma run_create:
  assumes "can_malloc s" and "0 \<le> kerrighed_max_nodes s" and "kerrighed_max_nodes s < 2 ^ 64"
  shows "\<exists>ns s'. run_state krg_node_set_create s = (Some ns, s') \<and> quiet s s' \<and>
    node_set_ok s' ns \<and> elems ns = {} \<and> subclusterid ns = 0 \<and>
    s' = after (Malloc (kerrighed_max_nodes s)) (after (Malloc 16) s)"
proof -
  let ?s = "after (Malloc (kerrighed_max_nodes s)) (after (Malloc 16) s)"
  obtain xs where xs: "run_state (malloc (kerrighed_max_nodes s)) (after (Malloc 16) s) = (Some xs, ?s)"
      "int (length xs) = kerrighed_max_nodes s"
    using assms by (simp add: run_malloc can_malloc_def)
  have "node_set_ok ?s \<lparr>subclusterid = 0, ns_v = xs\<rparr>" using xs(2) by (simp add: ok_defs)
  from run_clear [OF this] obtain ns where
    ns: "run_state (krg_node_set_clear \<lparr>subclusterid = 0, ns_v = xs\<rparr>) ?s = (ns, ?s)"
      "node_set_ok ?s ns" "elems ns = {}" "subclusterid ns = 0" by blast
  have "quiet s ?s" by (meson quiet_malloc quiet_trans)
  moreover have "run_state krg_node_set_create s = (Some ns, ?s)"
    using xs ns assms(1) by (simp add: krg_node_set_create_def run_malloc can_malloc_def)
  ultimately show ?thesis using ns by blast
qed

lemma run_fill_set:
  assumes "node_set_ok s ns" and "tab_ok s tab"
  shows "\<exists>ns'. run_state (foldM (\<lambda>ns bcl. do {
             x \<leftarrow> load tab bcl;
             if p x then do { ar \<leftarrow> krg_node_set_add ns bcl; return (fst ar) }
             else return ns }) ns [0..kerrighed_max_nodes s - 1]) s = (ns', s) \<and>
    node_set_ok s ns' \<and> elems ns' = elems ns \<union> tab_set tab p \<and> subclusterid ns' = subclusterid ns"
proof -
  let ?f = "\<lambda>ns bcl. do { x \<leftarrow> load tab bcl;
      if p x then do { ar \<leftarrow> krg_node_set_add ns bcl; return (fst ar) } else return ns }"
  let ?ixs = "[0..kerrighed_max_nodes s - 1]"
  let ?I = "\<lambda>ys ns' s'. s' = s \<and> node_set_ok s ns' \<and> subclusterid ns' = subclusterid ns \<and>
      elems ns' = elems ns \<union> {n \<in> set ys. p (tab ! nat n)}"
  have "\<exists>ns' s'. run_state (foldM ?f ns ?ixs) s = (ns', s') \<and> ?I ?ixs ns' s'"
  proof (rule foldM_inv)
    fix ys i zs ns1 s1 assume ixs: "?ixs = ys @ i # zs" and I: "?I ys ns1 s1"
    have "i \<in> set ?ixs" using ixs by simp
    then have "0 \<le> i" "i < kerrighed_max_nodes s" "i < int (length tab)"
      using assms(2) by (auto simp: tab_ok_def)
    then show "\<exists>ns' s'. run_state (?f ns1 i) s1 = (ns', s') \<and> ?I (ys @ [i]) ns' s'"
      using I by (auto simp: krg_node_set_add_def ok_defs elems_def tab_set_update)
  qed (use assms in auto)
  moreover have "{n \<in> set ?ixs. p (tab ! nat n)} = tab_set tab p"
    using assms(2) by (auto simp: tab_set_def tab_ok_def)
  ultimately show ?thesis by auto
qed

lemma run_nodes_get:
  assumes "can_malloc s" and "0 \<le> kerrighed_max_nodes s" and "kerrighed_max_nodes s < 2 ^ 64"
    and "nodes_ok s t"
  shows "\<exists>ns s'. run_state (krg_nodes_get t st) s = (Some ns, s') \<and> quiet s s' \<and>
    node_set_ok s' ns \<and> elems ns = in_status t st \<and> subclusterid ns = 0 \<and>
    s' = after (Malloc (kerrighed_max_nodes s)) (after (Malloc 16) s)"
proof -
  obtain ns s' where 1: "run_state krg_node_set_create s = (Some ns, s')" "quiet s s'"
      "node_set_ok s' ns" "elems ns = {}" "subclusterid ns = 0"
      "s' = after (Malloc (kerrighed_max_nodes s)) (after (Malloc 16) s)"
    using run_create [OF assms(1-3)] by blast
  have "tab_ok s' (nodes_tab t)" using assms(4) ok_frame [OF quiet_frame [OF 1(2)]] by (simp add: nodes_ok_def)
  from run_fill_set [OF 1(3) this, of "\<lambda>x. x = status_code st"] 1 show ?thesis
    by (auto simp: krg_nodes_get_def in_status_def)
qed

lemma run_fill_mask:
  assumes "node_set_ok s ns" and "kerrighed_max_nodes s \<le> KERRIGHED_HARD_MAX_NODES"
  shows "\<exists>m. run_state (fill_mask ns) s = (m, s) \<and> length m = LONGS_PER_KRGNODEMASK \<and> mask_nodes m = elems ns"
proof -
  let ?f = "\<lambda>m i. do { x \<leftarrow> load (ns_v ns) i; if x \<noteq> 0 then krgnode_set i m else return m }"
  let ?ixs = "[0..kerrighed_max_nodes s - 1]"
  let ?I = "\<lambda>ys m s'. s' = s \<and> length m = 4 \<and> mask_nodes m = {n \<in> set ys. ns_v ns ! nat n \<noteq> 0}"
  have "\<exists>m s'. run_state (foldM ?f krgnodes_clear ?ixs) s = (m, s') \<and> ?I ?ixs m s'"
  proof (rule foldM_inv)
    fix ys i zs m s1 assume ixs: "?ixs = ys @ i # zs" and I: "?I ys m s1"
    have "i \<in> set ?ixs" using ixs by simp
    then have i: "0 \<le> i" "i < int (length (ns_v ns))" "i < 64 * int (length m)"
      using assms I by (auto simp: ok_defs KERRIGHED_HARD_MAX_NODES_def)
    obtain m' where "run_state (krgnode_set i m) s1 = (m', s1)" "length m' = length m"
        "mask_nodes m' = insert i (mask_nodes m)"
      using krgnode_set_step [OF i(1,3), of s1] by metis
    then show "\<exists>m' s'. run_state (?f m i) s1 = (m', s') \<and> ?I (ys @ [i]) m' s'"
      using I i by auto
  qed simp
  moreover have "{n \<in> set ?ixs. ns_v ns ! nat n \<noteq> 0} = elems ns"
    using assms(1) by (auto simp: elems_def tab_set_def ok_defs)
  ultimately show ?thesis
    by (auto simp: fill_mask_def LONGS_PER_KRGNODEMASK_def KERRIGHED_HARD_MAX_NODES_def)
qed

lemma faults_call:
  "run_state (call_kerrighed_services k d) s = (r, s') \<Longrightarrow> faults (trace s') = faults (trace s)"
  by (auto simp: run_call Let_def faults_def split: if_splits)

lemma call_service_calls:
  assumes "run_state (call_service k d) s = (r, s')" and "can_open s"
  shows "ksys_calls (trace s') = ksys_calls (trace s) @ [(k, d, r)]"
    and "faults (trace s') = faults (trace s)" and "frame s s'"
proof -
  let ?fd = "resp_ret (answers s (trace s) services_path)"
  have "?fd \<noteq> -1" using assms(2) by (simp add: can_open_def)
  then have "r = resp_ret (answers s (trace (after services_path s)) (Ioctl ?fd k d))"
    and s': "s' = after (Close ?fd) (after (Ioctl ?fd k d) (after services_path s))"
    using assms(1) by (simp_all add: call_service_def run_call Let_def)
  then show "ksys_calls (trace s') = ksys_calls (trace s) @ [(k, d, r)]"
    by (simp add: services_path_def)
  show "faults (trace s') = faults (trace s)" using s' by (simp add: faults_def)
  show "frame s s'" using assms(1) by (rule framedD [OF framed_call_service])
qed

lemma run_nodes_create:
  "run_state krg_nodes_create s = (x, s') \<Longrightarrow> frame s s' \<and>
     blocks (trace s') = blocks (trace s) + (if x = None then 0 else 2) \<and>
     ksys_calls (trace s') = ksys_calls (trace s) \<and> faults (trace s') = faults (trace s) \<and>
     (\<forall>t. x = Some t \<longrightarrow> int (length (nodes_tab t)) = kerrighed_max_nodes s mod 2 ^ 64)"
  by (auto simp: krg_nodes_create_def run_malloc faults_def frame_def split: if_splits option.splits)

lemma blocks_call:
  "run_state (call_kerrighed_services k d) s = (r, s') \<Longrightarrow> blocks (trace s') = blocks (trace s)"
  by (auto simp: run_call Let_def services_path_def split: if_splits)

lemma framed_nodes_create [framed_intros]: "framed krg_nodes_create"
  unfolding krg_nodes_create_def by (intro framed_intros)

lemma framed_nodes_destroy [framed_intros]: "framed (krg_nodes_destroy x)"
  unfolding krg_nodes_destroy_def by (intro framed_intros)

lemma framed_nodes_status [framed_intros]: "framed krg_nodes_status"
  unfolding krg_nodes_status_def by (intro framed_intros)

lemma length_overwrite [simp]: "length (overwrite buf xs) = length buf"
  by (simp add: overwrite_def)

lemma overwrite_same: "length xs = length buf \<Longrightarrow> overwrite buf xs = xs"
  by (simp add: overwrite_def)

section \<open>A sample cluster\<close>

text \<open>
  A concrete environment, used to show that the hypotheses of the theorems can hold: memory is
  available, the services file opens, the status table is \<open>tab\<close> and the local node is \<open>me\<close>.
\<close>

definition sample_kernel :: "int list \<Rightarrow> int \<Rightarrow> event list \<Rightarrow> req \<Rightarrow> resp" where
  "sample_kernel tab me tr q = (case q of
     Malloc _ \<Rightarrow> Resp 4096 None NoData
   | Open _ _ _ \<Rightarrow> Resp 3 None NoData
   | Ioctl _ k _ \<Rightarrow>
       (case k of KSYS_HOTPLUG_NODES \<Rightarrow> Resp 0 None (DInts tab)
        | KSYS_GET_NODE_ID \<Rightarrow> Resp 0 None (DInt me)
        | KSYS_NB_MAX_NODES \<Rightarrow> Resp 0 None (DInt (int (length tab)))
        | KSYS_NB_MAX_CLUSTERS \<Rightarrow> Resp 0 None (DInt 1)
        | _ \<Rightarrow> Resp 0 None NoData)
   | _ \<Rightarrow> Resp 0 None NoData)"

definition sample_cluster :: "int list \<Rightarrow> int \<Rightarrow> krg" where
  "sample_cluster tab me =
     \<lparr>answers = sample_kernel tab me, trace = [], errno = 0,
      kerrighed_max_nodes = int (length tab), kerrighed_max_clusters = 1\<rparr>"

lemma sample_cluster_simps [simp]:
  "answers (sample_cluster tab me) = sample_kernel tab me"
  "trace (sample_cluster tab me) = []"
  "kerrighed_max_nodes (sample_cluster tab me) = int (length tab)"
  "kerrighed_max_clusters (sample_cluster tab me) = 1"
  "can_malloc (sample_cluster tab me)" "can_open (sample_cluster tab me)"
  by (simp_all add: sample_cluster_def can_malloc_def can_open_def services_path_def sample_kernel_def)

section \<open>Properties\<close>

text \<open>The operations of a client of the node-set type, and their meaning on sets.\<close>

datatype node_op = Op_add int | Op_remove int | Op_clear

fun do_node_op :: "krg_node_set \<Rightarrow> node_op \<Rightarrow> ('a krg_scheme, krg_node_set) state" where
  "do_node_op ns (Op_add n) = do { r \<leftarrow> krg_node_set_add ns n; return (fst r) }"
| "do_node_op ns (Op_remove n) = do { r \<leftarrow> krg_node_set_remove ns n; return (fst r) }"
| "do_node_op ns Op_clear = krg_node_set_clear ns"

fun set_node_op :: "int \<Rightarrow> int set \<Rightarrow> node_op \<Rightarrow> int set" where
  "set_node_op mx A (Op_add n) = (if 0 \<le> n \<and> n < mx then insert n A else A)"
| "set_node_op mx A (Op_remove n) = A - {n}"
| "set_node_op mx A Op_clear = {}"

lemma do_node_op_refines:
  assumes "node_set_ok s ns"
  shows "\<exists>ns'. run_state (do_node_op ns op) s = (ns', s) \<and> node_set_ok s ns' \<and>
    elems ns' = set_node_op (kerrighed_max_nodes s) (elems ns) op"
proof (cases op)
  case (Op_add n)
  then show ?thesis using node_set.add_run [OF assms, of n] by (auto simp del: run_if)
next
  case (Op_remove n)
  then show ?thesis using node_set.rem_run [OF assms, of n] by (auto simp del: run_if)
next
  case Op_clear
  then show ?thesis using run_clear [OF assms] by auto
qed

text \<open>
  C2.  The node sets of libhotplug refine finite sets of node numbers: after any sequence of
  additions, removals and clearings, from any well-formed set, no access left the array,
  \<^verbatim>\<open>contains\<close> is membership, \<^verbatim>\<open>weight\<close> the cardinality, \<^verbatim>\<open>next\<close> the least greater member (or -1),
  and the whole iteration enumerates the members in ascending order.
\<close>

theorem node_set_refines_set:
  fixes ops :: "node_op list"
  assumes "node_set_ok s ns"
  defines "A \<equiv> foldl (set_node_op (kerrighed_max_nodes s)) (elems ns) ops"
  shows "\<exists>ns'. run_state (foldM do_node_op ns ops) s = (ns', s) \<and> elems ns' = A \<and>
    (\<forall>n. \<exists>r. run_state (krg_node_set_contains ns' n) s = (r, s) \<and> (r \<noteq> 0 \<longleftrightarrow> n \<in> A)) \<and>
    run_state (krg_node_set_weight ns') s = (int (card A), s) \<and>
    (\<forall>n \<ge> -1. run_state (krg_node_set_next ns' n) s = (next_in A n, s)) \<and>
    run_state (do { node \<leftarrow> krg_node_set_next ns' (-1);
        walk krg_node_set_next (\<lambda>c xs x. return (c, xs @ [x]))
          (Suc (nat (kerrighed_max_nodes s))) ns' [] node }) s
      = (Some (ns', sorted_list_of_set A), s)"
proof -
  have "\<exists>ns' s'. run_state (foldM do_node_op ns ops) s = (ns', s') \<and>
      (s' = s \<and> node_set_ok s ns' \<and>
       elems ns' = foldl (set_node_op (kerrighed_max_nodes s)) (elems ns) ops)"
    by (rule foldM_inv [where I = "\<lambda>ops ns' s'. s' = s \<and> node_set_ok s ns' \<and>
          elems ns' = foldl (set_node_op (kerrighed_max_nodes s)) (elems ns) ops"])
       (use assms do_node_op_refines in fastforce)+
  then obtain ns' where ns': "run_state (foldM do_node_op ns ops) s = (ns', s)"
      "node_set_ok s ns'" "elems ns' = A" by (auto simp: A_def)
  show ?thesis
    using ns' node_set.contains_run [OF ns'(2)] node_set.weight_run [OF ns'(2)]
      node_set.nxt_run [OF ns'(2)] node_set.walk_collect [OF ns'(2) node_set.card_bound [OF ns'(2)]]
    by (auto simp del: run_state_bind)
qed

theorem node_set_refines_set_witness:
  "\<exists>ns'. run_state (foldM do_node_op \<lparr>subclusterid = 0, ns_v = [0, 0, 0, 0]\<rparr>
      [Op_add 2, Op_add 3, Op_remove 2, Op_add 9]) (sample_cluster [0, 0, 0, 0] 0)
    = (ns', sample_cluster [0, 0, 0, 0] 0) \<and> elems ns' = {3}"
proof -
  let ?ns = "\<lparr>subclusterid = 0, ns_v = [0, 0, 0, 0]\<rparr>" and ?s = "sample_cluster [0, 0, 0, 0] 0"
  have e: "elems ?ns = {}"
    by (auto simp: elems_def tab_set_def nth_Cons split: nat.splits)
  have "node_set_ok ?s ?ns" by (simp add: ok_defs)
  from node_set_refines_set [OF this, of "[Op_add 2, Op_add 3, Op_remove 2, Op_add 9]"] show ?thesis
    by (auto simp: e simp del: foldM.simps)
qed

lemma run_add_remove:
  assumes "node_set_ok s ns" and "kerrighed_max_nodes s \<le> KERRIGHED_HARD_MAX_NODES" and "can_open s"
    and "(op, k) \<in> {(krg_nodes_add, KSYS_HOTPLUG_ADD), (krg_nodes_remove, KSYS_HOTPLUG_REMOVE)}"
  shows "\<exists>r s' m. run_state (op ns) s = (r, s') \<and> frame s s' \<and> mask_nodes m = elems ns \<and>
    length m = LONGS_PER_KRGNODEMASK \<and> faults (trace s') = faults (trace s) \<and>
    ksys_calls (trace s') = ksys_calls (trace s) @
      [(k, DMask \<lparr>hns_subclusterid = subclusterid ns, hns_v = m\<rparr>, r)]"
proof -
  obtain m where m: "run_state (fill_mask ns) s = (m, s)" "length m = LONGS_PER_KRGNODEMASK"
      "mask_nodes m = elems ns"
    using run_fill_mask [OF assms(1,2)] by blast
  let ?d = "DMask \<lparr>hns_subclusterid = subclusterid ns, hns_v = m\<rparr>"
  obtain r s' where r: "run_state (call_service k ?d) s = (r, s')" by fastforce
  have "run_state (op ns) s = (r, s')"
    using assms(4) m(1) r by (auto simp: krg_nodes_add_def krg_nodes_remove_def)
  then show ?thesis using call_service_calls [OF r assms(3)] m by blast
qed

text \<open>
  C26.  \<^verbatim>\<open>krg_nodes_add\<close> and \<^verbatim>\<open>krg_nodes_remove\<close> hand the kernel, in one call, a mask that marks
  exactly the members of the set, with the subcluster of the set, and return the kernel's answer;
  nothing is written outside the mask.
\<close>

theorem krg_nodes_add_remove_mask:
  assumes "node_set_ok s ns" and "kerrighed_max_nodes s \<le> KERRIGHED_HARD_MAX_NODES" and "can_open s"
    and "(op, k) \<in> {(krg_nodes_add, KSYS_HOTPLUG_ADD), (krg_nodes_remove, KSYS_HOTPLUG_REMOVE)}"
  shows "\<exists>r s' m. run_state (op ns) s = (r, s') \<and> frame s s' \<and> mask_nodes m = elems ns \<and>
    length m = LONGS_PER_KRGNODEMASK \<and> faults (trace s') = faults (trace s) \<and>
    ksys_calls (trace s') = ksys_calls (trace s) @
      [(k, DMask \<lparr>hns_subclusterid = subclusterid ns, hns_v = m\<rparr>, r)]"
  by (rule run_add_remove [OF assms])

theorem krg_nodes_add_remove_mask_witness:
  "\<exists>r s' m. run_state (krg_nodes_add \<lparr>subclusterid = 7, ns_v = [0, 1, 0, 1]\<rparr>) (sample_cluster [2, 2, 2, 2] 0)
     = (r, s') \<and> mask_nodes m = elems \<lparr>subclusterid = 7, ns_v = [0, 1, 0, 1]\<rparr> \<and>
    ksys_calls (trace s') = [(KSYS_HOTPLUG_ADD, DMask \<lparr>hns_subclusterid = 7, hns_v = m\<rparr>, r)]"
  using krg_nodes_add_remove_mask [of "sample_cluster [2, 2, 2, 2] 0" "\<lparr>subclusterid = 7, ns_v = [0, 1, 0, 1]\<rparr>"
      krg_nodes_add KSYS_HOTPLUG_ADD]
  by (auto simp: ok_defs KERRIGHED_HARD_MAX_NODES_def)

text \<open>
  C36.  \<^verbatim>\<open>krg_nodes_fail\<close> and \<^verbatim>\<open>krg_nodes_poweroff\<close> never look at the subcluster of the set they
  are given: the subcluster the kernel receives is the value of an unassigned variable.
\<close>

theorem krg_nodes_fail_poweroff_subcluster:
  assumes "node_set_ok s ns" and "kerrighed_max_nodes s \<le> KERRIGHED_HARD_MAX_NODES" and "can_open s"
    and "(op, k) \<in> {(krg_nodes_fail, KSYS_HOTPLUG_FAIL), (krg_nodes_poweroff, KSYS_HOTPLUG_POWEROFF)}"
  shows "\<exists>r s' m. run_state (op ns) s = (r, s') \<and> mask_nodes m = elems ns \<and>
    ksys_calls (trace s') = ksys_calls (trace s) @
      [(k, DMask \<lparr>hns_subclusterid = resp_ret (answers s (trace s) Uninit), hns_v = m\<rparr>, r)]"
proof -
  let ?s = "after Uninit s"
  have fr: "frame s ?s" by simp
  obtain m where m: "run_state (fill_mask ns) ?s = (m, ?s)" "mask_nodes m = elems ns"
    using run_fill_mask [of ?s ns] assms(1,2) ok_frame [OF fr] by auto
  let ?d = "DMask \<lparr>hns_subclusterid = resp_ret (answers s (trace s) Uninit), hns_v = m\<rparr>"
  obtain r s' where r: "run_state (call_service k ?d) ?s = (r, s')" by fastforce
  have "run_state (op ns) s = (r, s')"
    using assms(4) m(1) r by (auto simp: krg_nodes_fail_def krg_nodes_poweroff_def uninit_def)
  moreover have "can_open ?s" using assms(3) can_open_frame [OF fr] by simp
  ultimately show ?thesis using call_service_calls(1) [OF r] m(2) by fastforce
qed

theorem krg_nodes_fail_poweroff_subcluster_witness:
  "\<exists>r s' m. run_state (krg_nodes_fail \<lparr>subclusterid = 7, ns_v = [0, 1]\<rparr>) (sample_cluster [2, 2] 0)
     = (r, s') \<and> ksys_calls (trace s') = [(KSYS_HOTPLUG_FAIL, DMask \<lparr>hns_subclusterid = 0, hns_v = m\<rparr>, r)]"
  using krg_nodes_fail_poweroff_subcluster [of "sample_cluster [2, 2] 0" "\<lparr>subclusterid = 7, ns_v = [0, 1]\<rparr>"
      krg_nodes_fail KSYS_HOTPLUG_FAIL]
  by (auto simp: ok_defs KERRIGHED_HARD_MAX_NODES_def sample_kernel_def)

lemma nodes_status_blocks:
  assumes "run_state krg_nodes_status s = (x, s')"
  shows "blocks (trace s') = blocks (trace s) + (if x = None then 0 else 2) \<and>
    faults (trace s') = faults (trace s) \<and>
    (\<forall>t. x = Some t \<longrightarrow> int (length (nodes_tab t)) = kerrighed_max_nodes s mod 2 ^ 64)"
proof -
  obtain y s1 where 1: "run_state krg_nodes_create s = (y, s1)" by fastforce
  note c = run_nodes_create [OF 1]
  show ?thesis
  proof (cases y)
    case None
    then show ?thesis using assms 1 c by (simp add: krg_nodes_status_def)
  next
    case (Some t)
    obtain r d s2 where 2: "run_state (call_kerrighed_services KSYS_HOTPLUG_NODES NoData) s1 = ((r, d), s2)"
      by (metis surj_pair)
    note k = blocks_call [OF 2] faults_call [OF 2]
    show ?thesis
      using assms 1 2 Some c k
      by (auto simp: krg_nodes_status_def krg_nodes_destroy_def faults_def split: if_splits)
  qed
qed

text \<open>
  C35.  \<^verbatim>\<open>krg_nodes_status\<close> in any environment, out of memory or without a kernel included: a NULL
  result has released every block it allocated, any other result is a table with one entry per
  possible node (two live blocks), and no access was out of bounds.
\<close>

theorem krg_nodes_status_no_leak:
  assumes "run_state krg_nodes_status s = (x, s')"
    and "0 \<le> kerrighed_max_nodes s" and "kerrighed_max_nodes s \<le> INT_MAX"
  shows "faults (trace s') = faults (trace s) \<and>
    (case x of None \<Rightarrow> blocks (trace s') = blocks (trace s)
     | Some t \<Rightarrow> blocks (trace s') = blocks (trace s) + 2 \<and> nodes_ok s' t)"
proof -
  have "kerrighed_max_nodes s mod 2 ^ 64 = kerrighed_max_nodes s" using assms(2,3) by simp
  moreover have "frame s s'" using assms(1) by (rule framedD [OF framed_nodes_status])
  ultimately show ?thesis
    using nodes_status_blocks [OF assms(1)] frame_krg(1) [of s s'] by (auto simp: ok_defs split: option.splits)
qed

theorem krg_nodes_status_no_leak_witness:
  "\<exists>x s'. run_state krg_nodes_status (sample_cluster [2, 3] 0) = (Some x, s') \<and> blocks (trace s') = 2"
proof -
  obtain x s' where r: "run_state krg_nodes_status (sample_cluster [2, 3] 0) = (Some x, s')"
    by (simp add: krg_nodes_status_def krg_nodes_create_def run_malloc run_call Let_def sample_kernel_def
        services_path_def)
  from krg_nodes_status_no_leak [OF r] r show ?thesis by simp
qed

end
