(* ===== verification/Getopt.thy ===== *)
theory Getopt
  imports Krg_Os
begin

text \<open>
  The option parser of the GNU C library as the tools use it (\<^verbatim>\<open>getopt\<close> and \<^verbatim>\<open>getopt_long\<close> with
  argument permutation, POSIXLY_CORRECT not set).  The tools call it in a loop; since a call
  changes nothing but the parser's own position, the model gives the whole sequence of results,
  each an option letter with its argument (the letter \<^verbatim>\<open>?\<close> for an error), and the operands that
  are left when the loop ends.  The messages the parser itself prints are left out.
\<close>

datatype has_arg = no_argument | required_argument | optional_argument

type_synonym short_opts = "(char \<times> has_arg) list"
type_synonym long_opts = "(string \<times> has_arg \<times> char) list"
type_synonym parsed = "(char \<times> string option) list"

fun parse_short :: "short_opts \<Rightarrow> string \<Rightarrow> string list \<Rightarrow> parsed \<times> string list" where
  "parse_short so [] rest = ([], rest)"
| "parse_short so (c # cs) rest =
     (case map_of so c of
        None \<Rightarrow> (case parse_short so cs rest of (ps, r) \<Rightarrow> ((CHR ''?'', None) # ps, r))
      | Some no_argument \<Rightarrow> (case parse_short so cs rest of (ps, r) \<Rightarrow> ((c, None) # ps, r))
      | Some optional_argument \<Rightarrow> ([(c, if cs = [] then None else Some cs)], rest)
      | Some required_argument \<Rightarrow>
          if cs \<noteq> [] then ([(c, Some cs)], rest)
          else (case rest of [] \<Rightarrow> ([(CHR ''?'', None)], []) | a # as \<Rightarrow> ([(c, Some a)], as)))"

definition is_prefix :: "string \<Rightarrow> string \<Rightarrow> bool" where
  "is_prefix p s \<longleftrightarrow> take (length p) s = p"

text \<open>An exact name, or an abbreviation all of whose completions are the same option.\<close>

definition find_long :: "long_opts \<Rightarrow> string \<Rightarrow> (has_arg \<times> char) option" where
  "find_long lo name =
     (case map_of lo name of
        Some o' \<Rightarrow> Some o'
      | None \<Rightarrow>
          (case remdups (map snd (filter (\<lambda>o'. is_prefix name (fst o')) lo)) of
             [o'] \<Rightarrow> Some o'
           | _ \<Rightarrow> None))"

definition parse_long :: "long_opts \<Rightarrow> string \<Rightarrow> string list \<Rightarrow> (char \<times> string option) \<times> string list" where
  "parse_long lo a rest =
     (case strsep a (CHR ''='') of (name, val) \<Rightarrow>
        (case find_long lo name of
           None \<Rightarrow> ((CHR ''?'', None), rest)
         | Some (no_argument, c) \<Rightarrow> (if val = None then (c, None) else (CHR ''?'', None), rest)
         | Some (optional_argument, c) \<Rightarrow> ((c, val), rest)
         | Some (required_argument, c) \<Rightarrow>
             (case val of
                Some x \<Rightarrow> ((c, Some x), rest)
              | None \<Rightarrow> (case rest of [] \<Rightarrow> ((CHR ''?'', None), []) | x # xs \<Rightarrow> ((c, Some x), xs)))))"

lemma parse_short_length: "length (snd (parse_short so cs rest)) \<le> length rest"
  by (induction cs) (auto split: option.splits has_arg.splits prod.splits list.splits)

lemma parse_long_length: "length (snd (parse_long lo a rest)) \<le> length rest"
  by (auto simp: parse_long_def split: option.splits has_arg.splits prod.splits list.splits)

function getopt_all :: "short_opts \<Rightarrow> long_opts \<Rightarrow> string list \<Rightarrow> parsed \<times> string list" where
  "getopt_all so lo [] = ([], [])"
| "getopt_all so lo (a # as) =
     (if a = ''--'' then ([], as)
      else if lo \<noteq> [] \<and> is_prefix ''--'' a then
        (let (p, rest) = parse_long lo (drop 2 a) as; (ps, ns) = getopt_all so lo rest in (p # ps, ns))
      else if is_prefix ''-'' a \<and> a \<noteq> ''-'' then
        (let (p, rest) = parse_short so (drop 1 a) as; (ps, ns) = getopt_all so lo rest in (p @ ps, ns))
      else (let (ps, ns) = getopt_all so lo as in (ps, a # ns)))"
  by pat_completeness auto
termination
proof (relation "measure (\<lambda>(so, lo, as). length as)")
  fix so lo a as x p rest
  assume "x = parse_long lo (drop 2 a) as" "(p, rest) = x"
  then show "((so, lo, rest), so, lo, a # as) \<in> measure (\<lambda>(so, lo, as). length as)"
    using parse_long_length [of lo "drop 2 a" as] by (metis (no_types, lifting) case_prod_conv in_measure
        le_imp_less_Suc length_Cons snd_conv)
next
  fix so lo a as x p rest
  assume "x = parse_short so (drop 1 a) as" "(p, rest) = x"
  then show "((so, lo, rest), so, lo, a # as) \<in> measure (\<lambda>(so, lo, as). length as)"
    using parse_short_length [of so "drop 1 a" as] by (metis (no_types, lifting) case_prod_conv in_measure
        le_imp_less_Suc length_Cons snd_conv)
qed auto

text \<open>Operands alone, none of which looks like an option, come back as they are.\<close>

lemma getopt_all_operands:
  "(\<And>a. a \<in> set as \<Longrightarrow> \<not> is_prefix ''-'' a) \<Longrightarrow> getopt_all so lo as = ([], as)"
proof (induction as)
  case (Cons a as)
  have a: "\<not> is_prefix ''-'' a" using Cons.prems by simp
  then have "a \<noteq> ''--''" "\<not> is_prefix ''--'' a"
    by (cases a; auto simp: is_prefix_def)+
  then show ?case using Cons a by simp
qed simp

text \<open>
  The loop around the parser: each result is handled in turn, until one of them ends the program
  (\<open>Inl\<close> of the exit status).
\<close>

fun opt_loop :: "(char \<Rightarrow> string option \<Rightarrow> ('s, int + unit) state) \<Rightarrow> parsed \<Rightarrow> ('s, int + unit) state" where
  "opt_loop f [] = return (Inr ())"
| "opt_loop f (p # ps) = do {
     r \<leftarrow> f (fst p) (snd p);
     case r of Inl e \<Rightarrow> return (Inl e) | Inr _ \<Rightarrow> opt_loop f ps }"

lemma keeps_opt_loop [keeps_intros]: "(\<And>c a. keeps v (f c a)) \<Longrightarrow> keeps v (opt_loop f ps)"
  by (induction ps) (auto intro!: keeps_intros)

lemma opt_loop_first:
  "run_state (f c a) s = (Inl e, s') \<Longrightarrow> run_state (opt_loop f ((c, a) # ps)) s = (Inl e, s')"
  by simp

end
