(* ===== verification/Krgadm_Parse.thy ===== *)
theory Krgadm_Parse
  imports Hotplug Getopt
begin

text \<open>
  The printer and the parsers of node lists of \<^verbatim>\<open>tools/krgadm.c\<close>: \<^verbatim>\<open>node_set_str\<close>,
  \<^verbatim>\<open>parse_node\<close>, \<^verbatim>\<open>parse_nodes_interval\<close> and \<^verbatim>\<open>parse_nodes\<close>.  The properties are that every
  well-formed node list adds exactly the nodes it names, that a malformed one is refused, and that
  printing stays inside its buffer for the cluster sizes of Kerrighed.
\<close>

section \<open>Printing node sets\<close>

datatype mode_t = NODES_MODE_UNSET | NODES_MODE_ALL | NODES_MODE_COUNT | NODES_MODE_TOTAL | NODES_MODE_LIST

datatype action = NONE | STATUS | ADD | DEL | POWEROFF | REBOOT

definition NODE_SEP :: char where "NODE_SEP = CHR '',''"
definition NODE_RANGE_SEP :: char where "NODE_RANGE_SEP = CHR ''-''"
definition POLL_NODES :: int where "POLL_NODES = 1"

definition bytes_of :: "string \<Rightarrow> int list" where
  "bytes_of t = map (\<lambda>c. of_char c) t"

text \<open>Writing a string of bytes at an offset of a buffer.\<close>

definition put_bytes :: "int list \<Rightarrow> int \<Rightarrow> int list \<Rightarrow> ('a os_scheme, int list) state" where
  "put_bytes buf i bs = foldM (\<lambda>b kx. store b (i + int (fst kx)) (snd kx)) buf (enumerate 0 bs)"

text \<open>The walking loop over the members of a node set, with enough fuel for every node number.\<close>

definition for_nodes :: "krg_node_set \<Rightarrow> 'b \<Rightarrow>
    (krg_node_set \<Rightarrow> 'b \<Rightarrow> int \<Rightarrow> ('a krg_scheme, krg_node_set \<times> 'b) state) \<Rightarrow>
    ('a krg_scheme, krg_node_set \<times> 'b) state" where
  "for_nodes ns b body = do {
     mx \<leftarrow> gets kerrighed_max_nodes;
     node \<leftarrow> krg_node_set_next ns (-1);
     r \<leftarrow> walk krg_node_set_next body (Suc (nat mx)) ns b node;
     return (case r of None \<Rightarrow> (ns, b) | Some cb \<Rightarrow> cb) }"

text \<open>One turn of the loop of \<^verbatim>\<open>node_set_str\<close>, on the buffer and the position in it.\<close>

definition str_body :: "int \<Rightarrow> krg_node_set \<Rightarrow> int list \<times> int \<Rightarrow> int \<Rightarrow>
    ('a krg_scheme, krg_node_set \<times> int list \<times> int) state" where
  "str_body l ns b node = do {
     b1 \<leftarrow> (if snd b > 1 then do { t \<leftarrow> store (fst b) (snd b) (of_char NODE_SEP); return (t, snd b + 1) }
            else return b);
     d \<leftarrow> return (bytes_of (show_int node));
     t \<leftarrow> put_bytes (fst b1) (snd b1) (take (nat (l - 1)) d @ [0]);
     return (ns, (t, snd b1 + int (length d))) }"

text \<open>The buffer \<^verbatim>\<open>str\<close> of \<^verbatim>\<open>node_set_str\<close>; \<open>snprintf\<close> writes the digits and a NUL.\<close>

definition node_set_str :: "krg_node_set \<Rightarrow> ('a krg_scheme, int list) state" where
  "node_set_str ns = do {
     mx \<leftarrow> gets kerrighed_max_nodes;
     l \<leftarrow> return (mx * 4 + 2);
     blk \<leftarrow> malloc l;
     case blk of None \<Rightarrow> do { emit Fault; return [] }
     | Some str \<Rightarrow> do {
         str \<leftarrow> store str 0 (of_char (CHR ''[''));
         r \<leftarrow> for_nodes ns (str, 1) (str_body l);
         store (fst (snd r)) (snd (snd r)) (of_char (CHR '']'')) } }"

text \<open>What \<^verbatim>\<open>%s\<close> prints: the bytes up to the first NUL; without one the read leaves the block.\<close>

definition put_cstring :: "string \<Rightarrow> int list \<Rightarrow> string \<Rightarrow> ('a os_scheme, unit) state" where
  "put_cstring pre bs post =
     (if 0 \<in> set bs then emit (Out (pre @ map (\<lambda>b. char_of (nat (b mod 256))) (takeWhile (\<lambda>b. b \<noteq> 0) bs) @ post))
      else do { emit Fault; emit (Out pre) })"

section \<open>Parsing node lists\<close>

definition parse_node :: "string \<Rightarrow> krg_node_set \<Rightarrow> ('a krg_scheme, int \<times> krg_node_set) state" where
  "parse_node ch node_set =
     (case strtol ch 10 of (x, endptr) \<Rightarrow>
        if endptr = ch \<or> endptr \<noteq> [] then do {
          set_errno EINVAL;
          perror ''node'';
          return (-1, node_set) }
        else do {
          r \<leftarrow> krg_node_set_add node_set (to_int x);
          return (1, fst r) })"

text \<open>
  The counted loop of an interval; when its end is the largest \<^verbatim>\<open>int\<close> the increment of the loop
  variable overflows, which is recorded as a fault.
\<close>

definition add_range :: "int \<Rightarrow> int \<Rightarrow> krg_node_set \<Rightarrow> ('a krg_scheme, krg_node_set) state" where
  "add_range node1 node2 node_set = do {
     ns \<leftarrow> foldM (\<lambda>ns node. do { r \<leftarrow> krg_node_set_add ns node; return (fst r) }) node_set [node1..node2];
     if node1 \<le> node2 \<and> node2 = INT_MAX then do { emit Fault; return ns } else return ns }"

definition parse_nodes_interval :: "string \<Rightarrow> krg_node_set \<Rightarrow> ('a krg_scheme, int \<times> krg_node_set) state"
  where
  "parse_nodes_interval ch node_set =
     (let index = (case strchr ch NODE_RANGE_SEP of None \<Rightarrow> [] | Some t \<Rightarrow> t);
          (x1, endptr) = strtol ch 10
      in if endptr = ch \<or> (case endptr of [] \<Rightarrow> True | c # _ \<Rightarrow> c \<noteq> NODE_RANGE_SEP) then do {
           set_errno EINVAL;
           perror ''first node range'';
           return (-1, node_set) }
         else (case strtol (drop 1 index) 10 of (x2, endptr2) \<Rightarrow>
           if endptr2 = drop 1 index \<or> endptr2 \<noteq> [] then do {
             set_errno EINVAL;
             perror ''end node range'';
             return (-1, node_set) }
           else do {
             ns \<leftarrow> add_range (to_int x1) (to_int x2) node_set;
             return (1, ns) }))"

function parse_nodes :: "string \<Rightarrow> krg_node_set \<Rightarrow> ('a krg_scheme, int \<times> krg_node_set) state" where
  "parse_nodes ch node_set =
     (case strrchr ch NODE_SEP of
        Some (before, item) \<Rightarrow> do {
          r1 \<leftarrow> parse_nodes before node_set;
          if fst r1 = -1 then return r1 else parse_nodes item (snd r1) }
      | None \<Rightarrow>
          (case strrchr ch NODE_RANGE_SEP of
             Some _ \<Rightarrow> parse_nodes_interval ch node_set
           | None \<Rightarrow> parse_node ch node_set))"
  by pat_completeness auto
termination
  by (relation "measure (\<lambda>(ch, _). length ch)") (auto dest: strrchr_length)

declare parse_nodes.simps [simp del]

section \<open>Walking a node set\<close>

lemma for_nodes_walk:
  "run_state (do { node \<leftarrow> krg_node_set_next ns (-1);
     walk krg_node_set_next body (Suc (nat (kerrighed_max_nodes s))) ns b node }) s = (Some cb, s') \<Longrightarrow>
   run_state (for_nodes ns b body) s = (cb, s')"
  by (simp add: for_nodes_def split: prod.splits del: walk.simps)

lemma run_for_nodes:
  assumes "\<And>c b node s c' b' s'. R s c \<Longrightarrow> node_set_ok s c \<Longrightarrow> node \<in> elems c \<Longrightarrow>
      run_state (body c b node) s = ((c', b'), s') \<Longrightarrow>
      R s' c' \<and> node_set_ok s' c' \<and> (\<forall>m. node < m \<longrightarrow> (m \<in> elems c' \<longleftrightarrow> m \<in> elems c))"
    and "R s ns" and "node_set_ok s ns"
  shows "run_state (for_nodes ns b body) s =
    run_state (foldM (\<lambda>cb x. body (fst cb) (snd cb) x) (ns, b) (sorted_list_of_set (elems ns))) s"
proof -
  obtain cb s' where f: "run_state (foldM (\<lambda>cb x. body (fst cb) (snd cb) x) (ns, b)
      (sorted_list_of_set (elems ns))) s = (cb, s')" by fastforce
  have "run_state (for_nodes ns b body) s = (cb, s')"
    using node_set.walk_foldM [of R body s ns "Suc (nat (kerrighed_max_nodes s))" b,
        OF assms node_set.card_bound [OF assms(3)]] f
    by (intro for_nodes_walk) simp
  then show ?thesis using f by simp
qed

lemma run_for_nodes_filter:
  assumes "\<And>c b x s. R s c \<Longrightarrow> node_set_ok s c \<Longrightarrow> x \<in> elems c \<Longrightarrow>
      \<exists>c' s'. run_state (body c b x) s = ((c', upd b x), s') \<and> R s' c' \<and> node_set_ok s' c' \<and>
        elems c' = (if keep b x then elems c else elems c - {x})"
    and "R s ns" and "node_set_ok s ns"
  shows "\<exists>ns' s'. run_state (for_nodes ns b body) s =
      ((ns', foldl upd b (sorted_list_of_set (elems ns))), s') \<and> R s' ns' \<and> node_set_ok s' ns' \<and>
      elems ns' = set (kept keep upd b (sorted_list_of_set (elems ns)))"
proof -
  have "nat (kerrighed_max_nodes s) < Suc (nat (kerrighed_max_nodes s))" by simp
  from node_set.walk_filter [of R body upd keep s ns "Suc (nat (kerrighed_max_nodes s))" b, OF assms this]
  show ?thesis using for_nodes_walk by fast
qed

section \<open>Node lists\<close>

text \<open>The grammar of node lists: numbers and ranges between commas.\<close>

datatype node_item = One nat | Range nat nat

fun show_item :: "node_item \<Rightarrow> string" where
  "show_item (One n) = show_nat n"
| "show_item (Range a b) = show_nat a @ NODE_RANGE_SEP # show_nat b"

abbreviation join_fields :: "string list \<Rightarrow> string" where
  "join_fields \<equiv> join_with NODE_SEP"

abbreviation show_items :: "node_item list \<Rightarrow> string" where
  "show_items is \<equiv> join_fields (map show_item is)"

fun item_nodes :: "node_item \<Rightarrow> int set" where
  "item_nodes (One n) = {int n}"
| "item_nodes (Range a b) = {int a..int b}"

fun item_fits :: "node_item \<Rightarrow> bool" where
  "item_fits (One n) \<longleftrightarrow> int n \<le> INT_MAX"
| "item_fits (Range a b) \<longleftrightarrow> int a \<le> INT_MAX \<and> int b < INT_MAX"

lemma show_item_no_sep: "NODE_SEP \<notin> set (show_item i)"
  by (cases i) (auto simp: NODE_SEP_def NODE_RANGE_SEP_def show_nat_no_sep)

lemma parse_nodes_single:
  "NODE_SEP \<notin> set ch \<Longrightarrow> parse_nodes ch ns =
     (if NODE_RANGE_SEP \<in> set ch then parse_nodes_interval ch ns else parse_node ch ns)"
proof -
  assume "NODE_SEP \<notin> set ch"
  moreover have "strrchr ch NODE_RANGE_SEP = None \<longleftrightarrow> NODE_RANGE_SEP \<notin> set ch" by (rule strrchr_None)
  ultimately show ?thesis
    by (auto simp: parse_nodes.simps [of ch] strrchr_None [THEN iffD2] split: option.splits)
qed

lemma parse_nodes_pair:
  "NODE_SEP \<notin> set item \<Longrightarrow> parse_nodes (before @ NODE_SEP # item) ns = do {
     r1 \<leftarrow> parse_nodes before ns;
     if fst r1 = -1 then return r1 else parse_nodes item (snd r1) }"
  by (simp add: parse_nodes.simps [of "before @ NODE_SEP # item"] strrchr_append)

text \<open>What one parser call leaves: the nodes \<open>N\<close> that exist were added, and nothing else happened.\<close>

definition adds :: "'a krg_scheme \<Rightarrow> krg_node_set \<Rightarrow> int set \<Rightarrow> (int \<times> krg_node_set) \<times> 'a krg_scheme \<Rightarrow> bool" where
  "adds s ns N x \<longleftrightarrow> (\<exists>ns'. x = ((1, ns'), s) \<and> node_set_ok s ns' \<and>
     elems ns' = elems ns \<union> (N \<inter> {0..<kerrighed_max_nodes s}))"

lemma parse_node_adds:
  assumes "node_set_ok s ns" and "int n \<le> INT_MAX"
  shows "adds s ns {int n} (run_state (parse_node (show_nat n) ns) s)"
proof -
  obtain ns' where ns': "run_state (krg_node_set_add ns (int n)) s =
      ((ns', if 0 \<le> int n \<and> int n < kerrighed_max_nodes s then 0 else -1), s)" "node_set_ok s ns'"
      "elems ns' = elems ns \<union> ({int n} \<inter> {0..<kerrighed_max_nodes s})"
    using node_set.add_run [OF assms(1), of "int n"] by blast
  have "strtol (show_nat n) 10 = (int n, [])" using strtol_show_nat [of n "[]"] assms(2) by simp
  then show ?thesis
    using ns' assms(2) show_nat_nonempty [of n]
    by (auto simp: parse_node_def adds_def to_int_id simp del: run_if)
qed

lemma parse_interval_adds:
  assumes "node_set_ok s ns" and "int a \<le> INT_MAX" and "int b < INT_MAX"
  shows "adds s ns {int a..int b} (run_state (parse_nodes_interval (show_item (Range a b)) ns) s)"
proof -
  obtain ns' where ns': "run_state (foldM (\<lambda>ns node. do { r \<leftarrow> krg_node_set_add ns node; return (fst r) })
      ns [int a..int b]) s = (ns', s)" "node_set_ok s ns'"
      "elems ns' = elems ns \<union> (set [int a..int b] \<inter> {0..<kerrighed_max_nodes s})"
    using node_set.add_all [OF assms(1), of "[int a..int b]"] by blast
  let ?ch = "show_nat a @ NODE_RANGE_SEP # show_nat b"
  have "\<not> is_digit 10 NODE_RANGE_SEP" by (simp add: NODE_RANGE_SEP_def is_digit_def digit_val_def)
  then have "strtol ?ch 10 = (int a, NODE_RANGE_SEP # show_nat b)"
    using strtol_show_nat [of a "NODE_RANGE_SEP # show_nat b"] assms(2) by simp
  moreover have "strtol (show_nat b) 10 = (int b, [])"
    using strtol_show_nat [of b "[]"] assms(3) by simp
  moreover have "strchr ?ch NODE_RANGE_SEP = Some (NODE_RANGE_SEP # show_nat b)"
    by (rule strchr_append) (simp add: NODE_RANGE_SEP_def show_nat_no_sep)
  moreover have "run_state (add_range (to_int (int a)) (to_int (int b)) ns) s = (ns', s)"
    using ns'(1) assms(2,3) by (simp add: add_range_def to_int_id)
  ultimately show ?thesis
    using ns' show_nat_nonempty [of a] show_nat_nonempty [of b]
    by (simp add: parse_nodes_interval_def adds_def del: run_if)
qed

lemma parse_item_adds:
  assumes "node_set_ok s ns" and "item_fits i"
  shows "adds s ns (item_nodes i) (run_state (parse_nodes (show_item i) ns) s)"
  unfolding parse_nodes_single [OF show_item_no_sep]
  using assms parse_node_adds [of s ns] parse_interval_adds [of s ns]
  by (cases i) (simp_all add: NODE_RANGE_SEP_def show_nat_no_sep)

lemma parse_items_adds:
  assumes "node_set_ok s ns" and "is \<noteq> []" and "\<forall>i \<in> set is. item_fits i"
  shows "adds s ns (\<Union>i \<in> set is. item_nodes i) (run_state (parse_nodes (show_items is) ns) s)"
  using assms(2,3)
proof (induction "is" rule: rev_nonempty_induct)
  case (single i)
  then show ?case using parse_item_adds [OF assms(1), of i] by simp
next
  case (snoc i "is")
  obtain ns1 where 1: "run_state (parse_nodes (show_items is) ns) s = ((1, ns1), s)" "node_set_ok s ns1"
      "elems ns1 = elems ns \<union> ((\<Union>i \<in> set is. item_nodes i) \<inter> {0..<kerrighed_max_nodes s})"
    using snoc by (auto simp: adds_def)
  obtain ns2 where 2: "run_state (parse_nodes (show_item i) ns1) s = ((1, ns2), s)" "node_set_ok s ns2"
      "elems ns2 = elems ns1 \<union> (item_nodes i \<inter> {0..<kerrighed_max_nodes s})"
    using parse_item_adds [OF 1(2), of i] snoc.prems by (auto simp: adds_def)
  have "run_state (parse_nodes (show_items (is @ [i])) ns) s = ((1, ns2), s)"
    using 1(1) 2(1) snoc.hyps by (simp add: join_with_snoc parse_nodes_pair [OF show_item_no_sep])
  then show ?case using 1(3) 2 by (auto simp: adds_def)
qed


section \<open>Malformed lists\<close>

text \<open>The characters a numeral of \<^verbatim>\<open>strtol\<close> is made of; a field has some and no others.\<close>

definition numeral_char :: "char \<Rightarrow> bool" where
  "numeral_char c \<longleftrightarrow> is_digit 10 c \<or> isspace c \<or> c = CHR ''+'' \<or> c = CHR ''-''"

definition field_ok :: "string \<Rightarrow> bool" where
  "field_ok f \<longleftrightarrow> f \<noteq> [] \<and> (\<forall>c \<in> set f. numeral_char c)"

lemma split_sign_split: "\<exists>p. t = p @ snd (split_sign t) \<and> set p \<subseteq> {CHR ''+'', CHR ''-''}"
  by (cases t) auto

lemma strtol_split: "\<exists>p. s = p @ snd (strtol s 10) \<and> (\<forall>c \<in> set p. numeral_char c)"
proof -
  let ?t = "dropWhile isspace s"
  obtain p where p: "?t = p @ snd (split_sign ?t)" "set p \<subseteq> {CHR ''+'', CHR ''-''}"
    using split_sign_split by blast
  let ?u = "snd (split_sign ?t)"
  let ?q = "takeWhile isspace s @ p @ takeWhile (is_digit 10) ?u"
  have "s = takeWhile isspace s @ ?t" by simp
  also have "\<dots> = takeWhile isspace s @ p @ ?u" using p(1) by metis
  also have "\<dots> = ?q @ dropWhile (is_digit 10) ?u" by simp
  finally have "s = ?q @ dropWhile (is_digit 10) ?u" .
  moreover have "\<forall>c \<in> set ?q. numeral_char c"
    using p(2) by (auto simp: numeral_char_def dest: set_takeWhileD)
  ultimately have A: "\<exists>p. s = p @ dropWhile (is_digit 10) ?u \<and> (\<forall>c \<in> set p. numeral_char c)" by blast
  have "snd (strtol s 10) = s \<or> snd (strtol s 10) = dropWhile (is_digit 10) ?u"
    by (auto simp: strtol_def Let_def split: prod.splits)
  then show ?thesis
  proof
    assume "snd (strtol s 10) = s"
    then show ?thesis by auto
  qed (use A in simp)
qed

text \<open>How a parser call ends: it reports \<open>1\<close>, or \<open>-1\<close> with \<open>errno\<close> set; no service was called.\<close>

definition parsed_or_refused :: "'a krg_scheme \<Rightarrow> (int \<times> krg_node_set) \<times> 'a krg_scheme \<Rightarrow> bool" where
  "parsed_or_refused s x \<longleftrightarrow> (fst (fst x) = 1 \<or> fst (fst x) = -1 \<and> errno (snd x) = EINVAL) \<and>
     ksys_calls (trace (snd x)) = ksys_calls (trace s)"

lemma parse_node_refuses:
  "parsed_or_refused s (run_state (parse_node f ns) s) \<and>
   (fst (fst (run_state (parse_node f ns) s)) = 1 \<longrightarrow> field_ok f)"
proof -
  obtain p where p: "f = p @ snd (strtol f 10)" "\<forall>c \<in> set p. numeral_char c" using strtol_split by blast
  obtain x e where xe: "strtol f 10 = (x, e)" by fastforce
  obtain a s1 where a: "run_state (krg_node_set_add ns (to_int x)) s = (a, s1)" by fastforce
  have "ksys_calls (trace s1) = ksys_calls (trace s)"
    using a by (auto simp: krg_node_set_add_def store_def split: if_splits)
  then show ?thesis
    using p xe a by (auto simp: parse_node_def parsed_or_refused_def field_ok_def)
qed

lemma add_range_calls:
  "ksys_calls (trace (snd (run_state (add_range a b ns) s))) = ksys_calls (trace s)"
proof -
  have "\<exists>ns' s'. run_state (foldM (\<lambda>ns node. do { r \<leftarrow> krg_node_set_add ns node; return (fst r) }) ns [a..b]) s
      = (ns', s') \<and> ksys_calls (trace s') = ksys_calls (trace s)"
    by (rule foldM_inv [where I = "\<lambda>_ _ s'. ksys_calls (trace s') = ksys_calls (trace s)"])
       (auto simp: krg_node_set_add_def store_def)
  then show ?thesis by (auto simp: add_range_def)
qed

lemma first_range_sep:
  assumes "strchr f NODE_RANGE_SEP = Some t"
  shows "\<exists>b. f = b @ t \<and> NODE_RANGE_SEP \<notin> set b \<and> t = NODE_RANGE_SEP # drop 1 t"
proof -
  let ?P = "\<lambda>x. x \<noteq> NODE_RANGE_SEP"
  have t: "dropWhile ?P f = t" "t \<noteq> []" using assms by (auto simp: strchr_def split: list.splits if_splits)
  then have "hd t = NODE_RANGE_SEP" using hd_dropWhile [of ?P f] by auto
  moreover have "f = takeWhile ?P f @ t" using t(1) by (metis takeWhile_dropWhile_id)
  ultimately show ?thesis using t(2) set_takeWhileD by (cases t) fastforce+
qed

lemma parse_interval_refuses:
  assumes "NODE_RANGE_SEP \<in> set f"
  shows "parsed_or_refused s (run_state (parse_nodes_interval f ns) s) \<and>
   (fst (fst (run_state (parse_nodes_interval f ns) s)) = 1 \<longrightarrow> field_ok f)"
proof -
  obtain x1 e1 where 1: "strtol f 10 = (x1, e1)" by fastforce
  obtain t where t: "strchr f NODE_RANGE_SEP = Some t"
    using assms by (cases "dropWhile (\<lambda>x. x \<noteq> NODE_RANGE_SEP) f") (auto simp: strchr_def)
  obtain b where b: "f = b @ t" "NODE_RANGE_SEP \<notin> set b" "t = NODE_RANGE_SEP # drop 1 t"
    using first_range_sep [OF t] by blast
  obtain x2 e2 where 2: "strtol (drop 1 t) 10 = (x2, e2)" by fastforce
  obtain p where p: "f = p @ e1" "\<forall>c \<in> set p. numeral_char c" using strtol_split [of f] 1 by auto
  obtain q where q: "drop 1 t = q @ e2" "\<forall>c \<in> set q. numeral_char c"
    using strtol_split [of "drop 1 t"] 2 by auto
  have "field_ok f" if "e1 = NODE_RANGE_SEP # r" "e2 = []" for r
  proof -
    have "p @ e1 = b @ t" using p(1) b(1) by simp
    then have "set b \<subseteq> set p"
      using b(2) that(1) by (auto simp: append_eq_append_conv2 append_eq_Cons_conv Cons_eq_append_conv)
    moreover have "numeral_char NODE_RANGE_SEP" by (simp add: numeral_char_def NODE_RANGE_SEP_def)
    moreover have "set t = insert NODE_RANGE_SEP (set q)"
      using b(3) q(1) that(2) by (metis append.right_neutral list.set(2))
    ultimately show ?thesis using p(2) q(2) assms b(1) by (auto simp: field_ok_def)
  qed
  then show ?thesis
    using 1 2 t add_range_calls [of "to_int x1" "to_int x2" ns s]
    by (auto simp: parse_nodes_interval_def parsed_or_refused_def Let_def split: list.splits prod.splits)
qed

lemma parse_field_refuses:
  assumes "NODE_SEP \<notin> set f"
  shows "parsed_or_refused s (run_state (parse_nodes f ns) s) \<and>
   (fst (fst (run_state (parse_nodes f ns) s)) = 1 \<longrightarrow> field_ok f)"
  unfolding parse_nodes_single [OF assms]
  using parse_node_refuses [of s f ns] parse_interval_refuses [of f s ns] by simp

lemma parse_fields_refuse:
  assumes "fs \<noteq> []" and "\<forall>f \<in> set fs. NODE_SEP \<notin> set f"
  shows "parsed_or_refused s (run_state (parse_nodes (join_fields fs) ns) s) \<and>
   (fst (fst (run_state (parse_nodes (join_fields fs) ns) s)) = 1 \<longrightarrow> (\<forall>f \<in> set fs. field_ok f))"
  using assms
proof (induction fs rule: rev_nonempty_induct)
  case (single f)
  then show ?case using parse_field_refuses [of f s ns] by simp
next
  case (snoc f fs)
  obtain r ns1 s1 where 1: "run_state (parse_nodes (join_fields fs) ns) s = ((r, ns1), s1)"
    by (metis surj_pair)
  have f: "NODE_SEP \<notin> set f" using snoc.prems by simp
  have "run_state (parse_nodes (join_fields (fs @ [f])) ns) s =
      (if r = -1 then ((r, ns1), s1) else run_state (parse_nodes f ns1) s1)"
    using 1 snoc.hyps by (simp add: join_with_snoc parse_nodes_pair [OF f])
  then show ?case
    using snoc 1 parse_field_refuses [OF f, of s1 ns1] by (auto simp: parsed_or_refused_def)
qed

text \<open>Every string is a list of fields.\<close>

lemma ex_fields: "\<exists>fs. fs \<noteq> [] \<and> ch = join_fields fs \<and> (\<forall>f \<in> set fs. NODE_SEP \<notin> set f)"
proof (induction "length ch" arbitrary: ch rule: less_induct)
  case less
  show ?case
  proof (cases "strrchr ch NODE_SEP")
    case None
    then have "NODE_SEP \<notin> set ch" by (simp add: strrchr_None)
    then show ?thesis by (intro exI [of _ "[ch]"]) simp
  next
    case (Some ba)
    obtain b a where ba: "ba = (b, a)" by fastforce
    then have ch: "ch = b @ NODE_SEP # a" "NODE_SEP \<notin> set a" using strrchr_Some Some by blast+
    obtain fs where "fs \<noteq> []" "b = join_fields fs" "\<forall>f \<in> set fs. NODE_SEP \<notin> set f"
      using less [of b] ch(1) by auto
    then show ?thesis using ch by (intro exI [of _ "fs @ [a]"]) (simp add: join_with_snoc)
  qed
qed

lemma parse_any_refuses: "parsed_or_refused s (run_state (parse_nodes ch ns) s)"
  using ex_fields [of ch] parse_fields_refuse by metis

section \<open>The printed form of a set\<close>

lemma store_at: "store (xs @ z # ys) (int (length xs)) x = return (xs @ x # ys)"
  by (simp add: list_update_append)

lemma put_bytes_aux:
  "length bs \<le> length ys \<Longrightarrow>
   run_state (foldM (\<lambda>b kx. store b (int (length xs) + int (fst kx)) (snd kx)) (xs @ cs @ ys)
      (enumerate (length cs) bs)) s = (xs @ cs @ bs @ drop (length bs) ys, s)"
proof (induction bs arbitrary: cs ys)
  case (Cons b bs)
  then obtain y ys' where y: "ys = y # ys'" by (cases ys) auto
  have "run_state (store (xs @ cs @ y # ys') (int (length xs) + int (length cs)) b) s = (xs @ cs @ b # ys', s)"
    using store_at [of "xs @ cs" y ys' b, where 'a = 'a] by (simp del: store_in)
  then show ?case using Cons.IH [of ys' "cs @ [b]"] Cons.prems y by (simp del: store_in)
qed simp

lemma run_put_bytes:
  "length bs \<le> length ys \<Longrightarrow>
   run_state (put_bytes (xs @ ys) (int (length xs)) bs) s = (xs @ bs @ drop (length bs) ys, s)"
  using put_bytes_aux [of bs ys xs "[]" s] by (simp add: put_bytes_def)

lemma bytes_of_simps [simp]:
  "bytes_of (a @ b) = bytes_of a @ bytes_of b" "bytes_of (c # a) = of_char c # bytes_of a"
  "bytes_of [] = []" "length (bytes_of a) = length a"
  by (simp_all add: bytes_of_def)

definition shown_nodes :: "int list \<Rightarrow> string" where
  "shown_nodes xs = CHR ''['' # join_fields (map show_int xs)"

lemma shown_nodes_snoc:
  "shown_nodes (ys @ [x]) = shown_nodes ys @ (if ys = [] then [] else [NODE_SEP]) @ show_int x"
  by (cases "ys = []") (simp_all add: shown_nodes_def join_with_snoc)

lemma show_int_length: "0 \<le> x \<Longrightarrow> x < 1000 \<Longrightarrow> 0 < length (show_int x) \<and> length (show_int x) \<le> 3"
  using show_nat_length [of "nat x" 3] show_nat_nonempty [of "nat x"] by (simp add: show_int_def)

lemma shown_nodes_length:
  assumes "\<forall>x \<in> set ys. 0 \<le> x \<and> x < 1000"
  shows "length (shown_nodes ys) \<le> max 1 (4 * length ys) \<and> (1 < length (shown_nodes ys) \<longleftrightarrow> ys \<noteq> [])"
  using assms
proof (induction ys rule: rev_induct)
  case Nil
  then show ?case by (simp add: shown_nodes_def)
next
  case (snoc x ys)
  then show ?case
    using show_int_length [of x] length_greater_0_conv [of ys]
    by (cases "ys = []") (auto simp: shown_nodes_snoc shown_nodes_def join_with_snoc max_def split: if_splits)
qed

lemma run_str_body:
  assumes "0 \<le> x" and "x < 1000" and "5 \<le> l" and "\<forall>x \<in> set ys. 0 \<le> x \<and> x < 1000"
    and "length (shown_nodes (ys @ [x])) < length blk"
  shows "run_state (str_body l ns (bytes_of (shown_nodes ys) @ z # drop (Suc (length (shown_nodes ys))) blk,
      int (length (shown_nodes ys))) x) s =
    ((ns, bytes_of (shown_nodes (ys @ [x])) @ 0 # drop (Suc (length (shown_nodes (ys @ [x])))) blk,
      int (length (shown_nodes (ys @ [x])))), s)"
proof -
  let ?p = "shown_nodes ys" and ?d = "show_int x"
  have d: "take (nat (l - 1)) (bytes_of ?d) = bytes_of ?d" using show_int_length [OF assms(1,2)] assms(3) by (simp add: le_nat_iff)
  have one: "1 < length ?p \<longleftrightarrow> ys \<noteq> []" using shown_nodes_length [OF assms(4)] by simp
  show ?thesis
  proof (cases "ys = []")
    case True
    then have "length (bytes_of ?d @ [0]) \<le> length (z # drop (Suc (length ?p)) blk)"
      using assms(5) by (simp add: shown_nodes_def)
    from run_put_bytes [OF this, of "bytes_of ?p" s] True one d show ?thesis
      by (simp add: str_body_def shown_nodes_def add.commute)
  next
    case False
    let ?r = "drop (Suc (length ?p)) blk"
    have "length (bytes_of ?d @ [0]) \<le> length ?r"
      using assms(5) False by (simp add: shown_nodes_snoc)
    from run_put_bytes [OF this, of "bytes_of ?p @ [of_char NODE_SEP]" s] False one d
    show ?thesis by (simp add: str_body_def shown_nodes_snoc list_update_append add.commute add.left_commute)
  qed
qed

lemma framed_put_bytes [framed_intros]: "framed (put_bytes buf i bs)"
  unfolding put_bytes_def by (intro framed_intros)

lemma framed_str_body [framed_intros]: "framed (str_body l ns b node)"
  unfolding str_body_def by (intro framed_intros)

lemma str_body_set: "run_state (str_body l ns b node) s = ((ns', b'), s') \<Longrightarrow> ns' = ns"
  by (auto simp: str_body_def split: prod.splits)

lemma run_str_loop:
  assumes "node_set_ok s ns" and "kerrighed_max_nodes s \<le> 1000" and "5 \<le> l" and "1 \<le> kerrighed_max_nodes s"
    and "length blk = nat (kerrighed_max_nodes s * 4 + 2)"
  shows "\<exists>z. run_state (for_nodes ns (of_char (CHR ''['') # drop 1 blk, 1) (str_body l)) s =
    ((ns, bytes_of (shown_nodes (sorted_list_of_set (elems ns))) @
          z # drop (Suc (length (shown_nodes (sorted_list_of_set (elems ns))))) blk,
      int (length (shown_nodes (sorted_list_of_set (elems ns))))), s)"
proof -
  let ?xs = "sorted_list_of_set (elems ns)"
  let ?I = "\<lambda>ys cb s'. s' = s \<and> (\<exists>z. cb = (ns, bytes_of (shown_nodes ys) @
      z # drop (Suc (length (shown_nodes ys))) blk, int (length (shown_nodes ys))))"
  have bnd: "finite (elems ns)" "elems ns \<subseteq> {0..<kerrighed_max_nodes s}"
    using node_set.els_finite [OF assms(1)] node_set.els_bound [OF assms(1)] by auto
  have len: "length (shown_nodes ys) + 1 < length blk" and rng: "\<forall>x \<in> set ys. 0 \<le> x \<and> x < 1000"
    if "?xs = ys @ zs" for ys zs
  proof -
    have "set ys \<subseteq> elems ns" using that bnd(1) by (metis Un_upper1 set_append set_sorted_list_of_set)
    then show "\<forall>x \<in> set ys. 0 \<le> x \<and> x < 1000" using bnd(2) assms(2) by fastforce
    then have "length (shown_nodes ys) \<le> max 1 (4 * length ys)" using shown_nodes_length by blast
    moreover have "length ys \<le> nat (kerrighed_max_nodes s)"
      using that node_set.card_bound [OF assms(1)] length_sorted_list_of_set [of "elems ns"] by simp
    ultimately show "length (shown_nodes ys) + 1 < length blk" using assms(4,5) by auto
  qed
  have start: "drop 1 blk = hd (drop 1 blk) # drop 2 blk"
  proof -
    have "drop 1 blk \<noteq> []" using len [of "[]" ?xs] by (simp add: shown_nodes_def)
    then show ?thesis by (metis drop_drop hd_Cons_tl drop_Suc one_add_one plus_1_eq_Suc drop0 One_nat_def)
  qed
  have "\<exists>cb s'. run_state (foldM (\<lambda>cb x. str_body l (fst cb) (snd cb) x)
      (ns, of_char (CHR ''['') # drop 1 blk, 1) ?xs) s = (cb, s') \<and> ?I ?xs cb s'"
  proof (rule foldM_inv)
    fix ys x zs cb s1 assume xs: "?xs = ys @ x # zs" and I: "?I ys cb s1"
    then obtain z where cb: "s1 = s" "cb = (ns, bytes_of (shown_nodes ys) @
      z # drop (Suc (length (shown_nodes ys))) blk, int (length (shown_nodes ys)))" by blast
    have x: "0 \<le> x" "x < 1000" and ys: "\<forall>x \<in> set ys. 0 \<le> x \<and> x < 1000"
      and l: "length (shown_nodes (ys @ [x])) < length blk"
      using rng [of "ys @ [x]" zs] len [of "ys @ [x]" zs] xs by auto
    show "\<exists>cb' s'. run_state (str_body l (fst cb) (snd cb) x) s1 = (cb', s') \<and> ?I (ys @ [x]) cb' s'"
      using run_str_body [OF x assms(3) ys l, of ns z s] cb by auto
  next
    show "?I [] (ns, of_char (CHR ''['') # drop 1 blk, 1) s"
      using start by (auto simp: shown_nodes_def numeral_2_eq_2)
  qed
  moreover have "run_state (for_nodes ns (of_char (CHR ''['') # drop 1 blk, 1) (str_body l)) s =
      run_state (foldM (\<lambda>cb x. str_body l (fst cb) (snd cb) x) (ns, of_char (CHR ''['') # drop 1 blk, 1) ?xs) s"
  proof (rule run_for_nodes [where R = "\<lambda>_ _. True"])
    fix c b node s1 c' b' s1'
    assume "node_set_ok s1 c" and run: "run_state (str_body l c b node) s1 = ((c', b'), s1')"
    then show "True \<and> node_set_ok s1' c' \<and> (\<forall>m. node < m \<longrightarrow> (m \<in> elems c' \<longleftrightarrow> m \<in> elems c))"
      using str_body_set [OF run] ok_frame(2) [OF framedD [OF framed_str_body run]] by simp
  qed (simp_all add: assms(1))
  ultimately show ?thesis by auto
qed

section \<open>Properties\<close>



text \<open>
  C30.  \<^verbatim>\<open>parse_nodes\<close> refuses a list in which some field between commas is empty or holds a
  character that cannot occur in a number or range: it returns -1 with \<^verbatim>\<open>errno\<close> EINVAL, for every
  set and state, and no service was called.
\<close>

theorem parse_nodes_refuses_malformed:
  assumes "\<forall>f \<in> set fs. NODE_SEP \<notin> set f" and "bad \<in> set fs" and "\<not> field_ok bad"
    and "run_state (parse_nodes (join_fields fs) ns) s = ((r, ns'), s')"
  shows "r = -1 \<and> errno s' = EINVAL \<and> ksys_calls (trace s') = ksys_calls (trace s)"
proof -
  have "fs \<noteq> []" using assms(2) by auto
  from parse_fields_refuse [OF this assms(1), of s ns] assms show ?thesis
    by (auto simp: parsed_or_refused_def)
qed

theorem parse_nodes_refuses_malformed_witness:
  "\<exists>r ns' s'. run_state (parse_nodes (join_fields [''1'', '''', ''2x''])
      \<lparr>subclusterid = 0, ns_v = [0, 0]\<rparr>) (sample_cluster [2, 2] 0) = ((r, ns'), s') \<and> r = -1"
proof -
  obtain r ns' s' where run: "run_state (parse_nodes (join_fields [''1'', '''', ''2x''])
      \<lparr>subclusterid = 0, ns_v = [0, 0]\<rparr>) (sample_cluster [2, 2] 0) = ((r, ns'), s')"
    by (metis surj_pair)
  have "\<forall>f \<in> set [''1'', '''', ''2x'']. NODE_SEP \<notin> set f" by (simp add: NODE_SEP_def)
  from parse_nodes_refuses_malformed [OF this _ _ run, of "''''"] run show ?thesis
    by (simp add: field_ok_def del: join_with.simps)
qed

lemma run_node_set_str:
  fixes s :: "'a krg_scheme"
  assumes "node_set_ok s ns" and "1 \<le> kerrighed_max_nodes s" and "kerrighed_max_nodes s \<le> 1000"
    and "can_malloc s"
  defines "l \<equiv> kerrighed_max_nodes s * 4 + 2"
    and "txt \<equiv> ''['' @ join_fields (map show_int (sorted_list_of_set (elems ns))) @ '']''"
  shows "run_state (node_set_str ns) s =
    (bytes_of txt @ drop (length txt) (pad_block (nat l) (data_ints (resp_data (answers s (trace s) (Malloc l))))),
     after (Malloc l) s)"
proof -
  let ?s = "after (Malloc l) s"
  let ?blk = "pad_block (nat l) (data_ints (resp_data (answers s (trace s) (Malloc l))))"
  let ?sh = "shown_nodes (sorted_list_of_set (elems ns))"
  have l: "6 \<le> l" "l mod 2 ^ 64 = l" using assms(2,3) by (simp_all add: l_def)
  have m: "run_state (malloc l) s = (Some ?blk, ?s)"
    using assms(4) l(2) by (simp add: run_malloc can_malloc_def)
  have "?blk \<noteq> []" using l(1) length_pad_block [of "nat l"] by (metis length_0_conv nat_0_iff not_le
        order.trans order_refl zero_less_numeral)
  then have st: "run_state (store ?blk 0 (of_char (CHR ''[''))) ?s = (of_char (CHR ''['') # drop 1 ?blk, ?s)"
    by (cases ?blk) simp_all
  have ok: "node_set_ok ?s ns" using assms(1) by (simp add: ok_defs)
  have "kerrighed_max_nodes ?s \<le> 1000" "5 \<le> l" "1 \<le> kerrighed_max_nodes ?s"
      "length ?blk = nat (kerrighed_max_nodes ?s * 4 + 2)"
    using assms(2,3) l(1) by (simp_all add: l_def)
  from run_str_loop [OF ok this] obtain z where lp:
    "run_state (for_nodes ns (of_char (CHR ''['') # drop 1 ?blk, 1) (str_body l)) ?s =
      ((ns, bytes_of ?sh @ z # drop (Suc (length ?sh)) ?blk, int (length ?sh)), ?s)" by blast
  have "run_state (node_set_str ns) s =
      run_state (store (bytes_of ?sh @ z # drop (Suc (length ?sh)) ?blk) (int (length ?sh)) (of_char (CHR '']''))) ?s"
    using m st lp by (simp add: node_set_str_def l_def del: store_in run_if)
  also have "\<dots> = (bytes_of ?sh @ of_char (CHR '']'') # drop (Suc (length ?sh)) ?blk, ?s)"
    by (simp add: list_update_append)
  finally show ?thesis by (simp add: txt_def shown_nodes_def)
qed

text \<open>
  C32.  With at most 1000 possible nodes \<^verbatim>\<open>node_set_str\<close> never writes outside the buffer it
  allocates, and the buffer starts with the members of the set in ascending order between brackets
  and commas.  The bytes after the closing bracket are those the allocator left there: the string
  is not terminated by the function.
\<close>

theorem node_set_str_exact:
  fixes s :: "'a krg_scheme"
  assumes "node_set_ok s ns" and "1 \<le> kerrighed_max_nodes s" and "kerrighed_max_nodes s \<le> 1000"
    and "can_malloc s"
  defines "l \<equiv> kerrighed_max_nodes s * 4 + 2"
    and "txt \<equiv> ''['' @ join_fields (map show_int (sorted_list_of_set (elems ns))) @ '']''"
  shows "run_state (node_set_str ns) s =
    (bytes_of txt @ drop (length txt) (pad_block (nat l) (data_ints (resp_data (answers s (trace s) (Malloc l))))),
     after (Malloc l) s)"
  unfolding l_def txt_def using run_node_set_str [OF assms(1-4)] .

theorem node_set_str_exact_witness:
  "\<exists>rest s'. run_state (node_set_str \<lparr>subclusterid = 0, ns_v = [0, 0]\<rparr>) (sample_cluster [2, 2] 0) =
     (bytes_of ''[]'' @ rest, s')"
proof -
  let ?ns = "\<lparr>subclusterid = 0, ns_v = [0, 0]\<rparr>"
  have e: "elems ?ns = {}" by (auto simp: elems_def tab_set_def nth_Cons split: nat.splits)
  have "node_set_ok (sample_cluster [2, 2] 0) ?ns" by (simp add: ok_defs)
  from node_set_str_exact [OF this] show ?thesis by (auto simp: e)
qed

end
