(* ===== verification/Libproc.thy ===== *)
theory Libproc
  imports Services
begin

text \<open>
  \<^verbatim>\<open>libs/libkerrighed/libproc.c\<close>, \<^verbatim>\<open>libipc.c\<close> and \<^verbatim>\<open>libcapability.c\<close>: the stubs that build a
  request for one kernel service and hand back its answer.  A field or variable the C code leaves
  unassigned is an answer to the request \<open>Uninit\<close>.
\<close>

unbundle bit_operations_syntax

section \<open>Nodes and migration\<close>

definition get_node_id :: "('a os_scheme, int) state" where
  "get_node_id = do {
     node_id \<leftarrow> uninit;
     r \<leftarrow> call_kerrighed_services KSYS_GET_NODE_ID (DInt node_id);
     return (if fst r \<noteq> 0 then -1 else (case snd r of DInt i \<Rightarrow> i | _ \<Rightarrow> node_id)) }"

definition get_nr_nodes :: "('a os_scheme, int) state" where
  "get_nr_nodes = do {
     count \<leftarrow> uninit;
     r \<leftarrow> call_kerrighed_services KSYS_GET_NODES_COUNT (DInt count);
     return (if fst r \<noteq> 0 then -1 else (case snd r of DInt i \<Rightarrow> i | _ \<Rightarrow> count)) }"

text \<open>The node number is stored in a \<^verbatim>\<open>kerrighed_node_t\<close>, a \<^verbatim>\<open>short\<close>.\<close>

definition migrate :: "int \<Rightarrow> int \<Rightarrow> ('a os_scheme, int) state" where
  "migrate pid destination_node =
     call_service KSYS_PROCESS_MIGRATION
       (DMigr \<lparr>destination_node_id = to_short destination_node, process_to_migrate = pid\<rparr>)"

definition migrate_self :: "int \<Rightarrow> ('a os_scheme, int) state" where
  "migrate_self destination_node = do {
     pid \<leftarrow> syscall Getpid;
     call_service KSYS_PROCESS_MIGRATION
       (DMigr \<lparr>destination_node_id = to_short destination_node, process_to_migrate = resp_ret pid\<rparr>) }"

definition thread_migrate :: "int \<Rightarrow> int \<Rightarrow> ('a os_scheme, int) state" where
  "thread_migrate thread_id destination_node =
     call_service KSYS_THREAD_MIGRATION
       (DMigr \<lparr>destination_node_id = to_short destination_node, process_to_migrate = thread_id\<rparr>)"

section \<open>Freezing, checkpointing, restarting\<close>

text \<open>Building a \<^verbatim>\<open>checkpoint_info\<close> whose serial number and result are not assigned.\<close>

definition freeze_info :: "int \<Rightarrow> 32 word \<Rightarrow> int \<Rightarrow> ('a os_scheme, checkpoint_info) state" where
  "freeze_info app_id flags signal = do {
     sn \<leftarrow> uninit;
     res \<leftarrow> uninit;
     return \<lparr>ci_app_id = app_id, ci_flags = flags, ci_chkpt_sn = sn, ci_result = res, ci_signal = signal\<rparr> }"

definition application_freeze_from_appid :: "int \<Rightarrow> ('a os_scheme, int) state" where
  "application_freeze_from_appid app_id = do {
     info \<leftarrow> freeze_info app_id 0 0;
     call_service KSYS_APP_FREEZE (DCkpt info) }"

definition application_freeze_from_pid :: "int \<Rightarrow> ('a os_scheme, int) state" where
  "application_freeze_from_pid pid = do {
     info \<leftarrow> freeze_info pid APP_FROM_PID 0;
     call_service KSYS_APP_FREEZE (DCkpt info) }"

definition application_unfreeze_from_appid :: "int \<Rightarrow> int \<Rightarrow> ('a os_scheme, int) state" where
  "application_unfreeze_from_appid app_id signal = do {
     info \<leftarrow> freeze_info app_id 0 signal;
     call_service KSYS_APP_UNFREEZE (DCkpt info) }"

definition application_unfreeze_from_pid :: "int \<Rightarrow> int \<Rightarrow> ('a os_scheme, int) state" where
  "application_unfreeze_from_pid pid signal = do {
     info \<leftarrow> freeze_info pid APP_FROM_PID signal;
     call_service KSYS_APP_UNFREEZE (DCkpt info) }"

text \<open>The kernel fills in the structure (its application and serial number); the return value of
  the call is stored in it afterwards.\<close>

definition chkpt_call :: "int \<Rightarrow> 32 word \<Rightarrow> ('a os_scheme, checkpoint_info) state" where
  "chkpt_call app_id flags = do {
     res \<leftarrow> uninit;
     info \<leftarrow> return \<lparr>ci_app_id = app_id, ci_flags = flags, ci_chkpt_sn = 0, ci_result = res, ci_signal = 0\<rparr>;
     r \<leftarrow> call_kerrighed_services KSYS_APP_CHKPT (DCkpt info);
     return ((case snd r of DCkpt i \<Rightarrow> i | _ \<Rightarrow> info)\<lparr>ci_result := fst r\<rparr>) }"

definition application_checkpoint_from_appid :: "int \<Rightarrow> 32 word \<Rightarrow> ('a os_scheme, checkpoint_info) state"
  where
  "application_checkpoint_from_appid app_id flags = chkpt_call app_id flags"

definition application_checkpoint_from_pid :: "int \<Rightarrow> 32 word \<Rightarrow> ('a os_scheme, checkpoint_info) state"
  where
  "application_checkpoint_from_pid pid flags = chkpt_call pid (flags OR APP_FROM_PID)"

text \<open>
  Two hexadecimal digits for each byte of a \<^verbatim>\<open>kerrighed_node_t\<close> and of an \<^verbatim>\<open>unsigned long\<close>.
\<close>

definition subst_str_len :: nat where
  "subst_str_len = 2 * 2 + 8 * 2"

text \<open>One entry of the substitution array fails the check; reading past the array is a fault.\<close>

definition subst_invalid :: "cr_subst_file list option \<Rightarrow> nat \<Rightarrow> ('a os_scheme, bool) state" where
  "subst_invalid files i =
     (case files of
        Some fs \<Rightarrow>
          if i < length fs then
            (if length (sf_file_id (fs ! i)) \<noteq> subst_str_len then return True
             else do {
               r \<leftarrow> syscall (Fcntl_getfl (sf_fd (fs ! i)));
               return (resp_ret r = -1) })
          else do { emit Fault; return True }
      | None \<Rightarrow> do { emit Fault; return True })"

definition application_restart ::
    "int \<Rightarrow> int \<Rightarrow> 32 word \<Rightarrow> cr_subst_files_array \<Rightarrow> ('a os_scheme, int) state" where
  "application_restart app_id chkpt_sn flags substitution = do {
     root \<leftarrow> uninit;
     rq \<leftarrow> return \<lparr>rr_app_id = app_id, rr_chkpt_sn = chkpt_sn, rr_flags = flags,
                   rr_root_pid = root, rr_substitution = substitution\<rparr>;
     bad \<leftarrow> (if sa_nr substitution \<noteq> 0
             then do { f \<leftarrow> firstM (subst_invalid (sa_files substitution)) [0..<sa_nr substitution];
                       return (f \<noteq> None) }
             else return (sa_files substitution \<noteq> None));
     if bad then do { set_errno EINVAL; return (-1) }
     else do {
       r \<leftarrow> call_kerrighed_services KSYS_APP_RESTART (DRst rq);
       return (if fst r = 0 then (case snd r of DRst q \<Rightarrow> rr_root_pid q | _ \<Rightarrow> root) else fst r) } }"

section \<open>User data of an application\<close>

definition application_set_userdata :: "64 word \<Rightarrow> ('a os_scheme, int) state" where
  "application_set_userdata data = call_service KSYS_APP_SET_USERDATA (DU64 data)"

text \<open>The result and the caller's variable, which is assigned only on success.\<close>

definition get_userdata :: "int \<Rightarrow> 32 word \<Rightarrow> 64 word \<Rightarrow> ('a os_scheme, int \<times> 64 word) state" where
  "get_userdata app_id flags data = do {
     r \<leftarrow> call_kerrighed_services KSYS_APP_GET_USERDATA
            (DUser \<lparr>ur_app_id = app_id, ur_flags = flags, ur_user_data = 0\<rparr>);
     return (fst r, if fst r = 0 then (case snd r of DUser q \<Rightarrow> ur_user_data q | _ \<Rightarrow> 0) else data) }"

definition application_get_userdata_from_appid :: "int \<Rightarrow> 64 word \<Rightarrow> ('a os_scheme, int \<times> 64 word) state"
  where
  "application_get_userdata_from_appid app_id data = get_userdata app_id 0 data"

definition application_get_userdata_from_pid :: "int \<Rightarrow> 64 word \<Rightarrow> ('a os_scheme, int \<times> 64 word) state"
  where
  "application_get_userdata_from_pid pid data = get_userdata pid APP_FROM_PID data"

section \<open>IPC objects\<close>

definition ipc_msgq_checkpoint :: "int \<Rightarrow> int \<Rightarrow> ('a os_scheme, int) state" where
  "ipc_msgq_checkpoint msqid fd = call_service KSYS_IPC_MSGQ_CHKPT (DInts [msqid, fd])"

definition ipc_msgq_restart :: "int \<Rightarrow> ('a os_scheme, int) state" where
  "ipc_msgq_restart fd = call_service KSYS_IPC_MSGQ_RESTART (DInt fd)"

definition ipc_sem_checkpoint :: "int \<Rightarrow> int \<Rightarrow> ('a os_scheme, int) state" where
  "ipc_sem_checkpoint semid fd = call_service KSYS_IPC_SEM_CHKPT (DInts [semid, fd])"

definition ipc_sem_restart :: "int \<Rightarrow> ('a os_scheme, int) state" where
  "ipc_sem_restart fd = call_service KSYS_IPC_SEM_RESTART (DInt fd)"

definition ipc_shm_checkpoint :: "int \<Rightarrow> int \<Rightarrow> ('a os_scheme, int) state" where
  "ipc_shm_checkpoint shmid fd = call_service KSYS_IPC_SHM_CHKPT (DInts [shmid, fd])"

definition ipc_shm_restart :: "int \<Rightarrow> ('a os_scheme, int) state" where
  "ipc_shm_restart fd = call_service KSYS_IPC_SHM_RESTART (DInt fd)"

section \<open>Capabilities\<close>

definition data_cap :: "krg_cap_t \<Rightarrow> kdata \<Rightarrow> krg_cap_t" where
  "data_cap old d = (case d of DCap c \<Rightarrow> c | _ \<Rightarrow> old)"

definition krg_capset :: "krg_cap_t \<Rightarrow> ('a os_scheme, int) state" where
  "krg_capset new_caps = call_service KSYS_SET_CAP (DCap new_caps)"

text \<open>The functions that read capabilities also return the caller's structure after the call.\<close>

definition krg_capget :: "krg_cap_t \<Rightarrow> ('a os_scheme, int \<times> krg_cap_t) state" where
  "krg_capget old_caps = do {
     r \<leftarrow> call_kerrighed_services KSYS_GET_CAP (DCap old_caps);
     return (fst r, data_cap old_caps (snd r)) }"

definition krg_pid_capset :: "int \<Rightarrow> krg_cap_t \<Rightarrow> ('a os_scheme, int) state" where
  "krg_pid_capset pid new_caps = call_service KSYS_SET_PID_CAP (DPidCap pid new_caps)"

definition krg_pid_capget :: "int \<Rightarrow> krg_cap_t \<Rightarrow> ('a os_scheme, int \<times> krg_cap_t) state" where
  "krg_pid_capget pid old_caps = do {
     r \<leftarrow> call_kerrighed_services KSYS_GET_PID_CAP (DPidCap pid old_caps);
     return (fst r, data_cap old_caps (snd r)) }"

definition krg_father_capset :: "krg_cap_t \<Rightarrow> ('a os_scheme, int) state" where
  "krg_father_capset new_caps = call_service KSYS_SET_FATHER_CAP (DCap new_caps)"

definition krg_father_capget :: "krg_cap_t \<Rightarrow> ('a os_scheme, int \<times> krg_cap_t) state" where
  "krg_father_capget old_caps = do {
     r \<leftarrow> call_kerrighed_services KSYS_GET_FATHER_CAP (DCap old_caps);
     return (fst r, data_cap old_caps (snd r)) }"

definition krg_cap_get_supported :: "32 word \<Rightarrow> ('a os_scheme, int \<times> 32 word) state" where
  "krg_cap_get_supported caps = do {
     r \<leftarrow> call_kerrighed_services KSYS_GET_SUPPORTED_CAP (DInt (sint caps));
     return (fst r, case snd r of DInt i \<Rightarrow> word_of_int i | _ \<Rightarrow> caps) }"

definition krg_cap_geteffective :: "krg_cap_t \<Rightarrow> 32 word" where
  "krg_cap_geteffective cap = krg_cap_effective cap"

definition krg_cap_getpermitted :: "krg_cap_t \<Rightarrow> 32 word" where
  "krg_cap_getpermitted cap = krg_cap_permitted cap"

definition krg_cap_getinheritable_permitted :: "krg_cap_t \<Rightarrow> 32 word" where
  "krg_cap_getinheritable_permitted cap = krg_cap_inheritable_permitted cap"

definition krg_cap_getinheritable_effective :: "krg_cap_t \<Rightarrow> 32 word" where
  "krg_cap_getinheritable_effective cap = krg_cap_inheritable_effective cap"

text \<open>The macros \<^verbatim>\<open>cap_raise\<close> and \<^verbatim>\<open>cap_raised\<close>.\<close>

definition cap_raise :: "32 word \<Rightarrow> nat \<Rightarrow> 32 word" where
  "cap_raise cap_vector cap = cap_vector OR push_bit cap 1"

definition cap_raised :: "32 word \<Rightarrow> nat \<Rightarrow> bool" where
  "cap_raised cap_vector cap \<longleftrightarrow> cap_vector AND push_bit cap 1 \<noteq> 0"

lemma cap_raised_bit: "cap_raised w n \<longleftrightarrow> bit w n"
  by (auto simp: cap_raised_def and_exp_eq_0_iff_not_bit)

lemma cap_raised_raise: "n < 32 \<Longrightarrow> cap_raised (cap_raise w m) n \<longleftrightarrow> n = m \<or> cap_raised w n"
  by (auto simp: cap_raised_bit cap_raise_def bit_or_iff bit_exp_iff)

section \<open>Frames\<close>

lemma framed_get_node_id [framed_intros]: "framed get_node_id"
  unfolding get_node_id_def by (intro framed_intros)

lemma framed_freeze_info [framed_intros]: "framed (freeze_info a f g)"
  unfolding freeze_info_def by (intro framed_intros)

lemma framed_application_freeze [framed_intros]:
  "framed (application_freeze_from_appid p)" "framed (application_freeze_from_pid p)"
  "framed (application_unfreeze_from_appid p g)" "framed (application_unfreeze_from_pid p g)"
  unfolding application_freeze_from_appid_def application_freeze_from_pid_def
    application_unfreeze_from_appid_def application_unfreeze_from_pid_def
  by (intro framed_intros)+

lemma framed_chkpt [framed_intros]:
  "framed (application_checkpoint_from_appid p f)" "framed (application_checkpoint_from_pid p f)"
  unfolding application_checkpoint_from_appid_def application_checkpoint_from_pid_def chkpt_call_def
  by (intro framed_intros)+

lemma framed_userdata [framed_intros]:
  "framed (application_set_userdata x)"
  "framed (application_get_userdata_from_appid p d)" "framed (application_get_userdata_from_pid p d)"
  unfolding application_set_userdata_def application_get_userdata_from_appid_def
    application_get_userdata_from_pid_def get_userdata_def
  by (intro framed_intros)+

lemma run_get_node_id:
  assumes "can_open s"
    and "\<And>tr fd d. resp_ret (answers s tr (Ioctl fd KSYS_GET_NODE_ID d)) = 0 \<and>
          resp_data (answers s tr (Ioctl fd KSYS_GET_NODE_ID d)) = DInt me"
  shows "\<exists>s'. run_state get_node_id s = (me, s') \<and> frame s s' \<and> faults (trace s') = faults (trace s)"
  using assms framedD [OF framed_get_node_id]
  by (simp add: get_node_id_def uninit_def run_call Let_def can_open_def faults_def frame_def)

section \<open>Properties\<close>

text \<open>
  C37.  A request to migrate names the node only modulo 65536: two destinations that agree in
  their low 16 bits give the same request, so a node number outside the range of \<^verbatim>\<open>short\<close> moves
  the process to another node than the one named.
\<close>

theorem migrate_destination_wraps:
  assumes "can_open s" and "run_state (migrate pid node) s = (r, s')"
  shows "\<exists>d. ksys_calls (trace s') = ksys_calls (trace s) @
      [(KSYS_PROCESS_MIGRATION, DMigr \<lparr>destination_node_id = d, process_to_migrate = pid\<rparr>, r)] \<and>
    -(2 ^ 15) \<le> d \<and> d < 2 ^ 15 \<and> (d - node) mod 2 ^ 16 = 0 \<and>
    (d = node \<longleftrightarrow> -(2 ^ 15) \<le> node \<and> node < 2 ^ 15)"
proof -
  let ?d = "to_short node"
  let ?fd = "resp_ret (answers s (trace s) services_path)"
  have "?fd \<noteq> -1" using assms(1) by (simp add: can_open_def)
  then have calls: "ksys_calls (trace s') = ksys_calls (trace s) @
      [(KSYS_PROCESS_MIGRATION, DMigr \<lparr>destination_node_id = ?d, process_to_migrate = pid\<rparr>, r)]"
    using assms(2) by (auto simp: migrate_def call_service_def run_call Let_def services_path_def)
  have range: "-(2 ^ 15) \<le> ?d" "?d < 2 ^ 15"
    using sint_greater_eq [of "word_of_int node :: 16 word"] sint_less [of "word_of_int node :: 16 word"]
    by (simp_all add: to_short_def)
  have "?d = (node + 2 ^ 15) mod 2 ^ 16 - 2 ^ 15"
    by (simp add: to_short_def int_word_sint)
  then have "?d - node = (node + 2 ^ 15) mod 2 ^ 16 - (2 ^ 15 + node)" by simp
  then have wrap: "(?d - node) mod 2 ^ 16 = 0"
    by (simp only: mod_diff_left_eq) simp
  have "?d = node \<longleftrightarrow> -(2 ^ 15) \<le> node \<and> node < 2 ^ 15"
    using range to_short_id [of node] by auto
  with calls range wrap show ?thesis by (intro exI [of _ ?d] conjI) simp_all
qed

definition served_os :: os where
  "served_os = idle_os (\<lambda>tr q. case q of Open _ _ _ \<Rightarrow> Resp 3 None NoData | _ \<Rightarrow> Resp 0 None NoData)"

lemma served_os_open: "can_open served_os"
  by (simp add: served_os_def idle_os_def can_open_def services_path_def)

theorem migrate_destination_wraps_witness:
  "\<exists>r s' d. run_state (migrate 42 65537) served_os = (r, s') \<and> d \<noteq> 65537 \<and>
    ksys_calls (trace s') = [(KSYS_PROCESS_MIGRATION, DMigr \<lparr>destination_node_id = d, process_to_migrate = 42\<rparr>, r)]"
proof -
  obtain r s' where r: "run_state (migrate 42 65537) served_os = (r, s')" by fastforce
  from migrate_destination_wraps [OF served_os_open r] r show ?thesis
    by (auto simp: served_os_def idle_os_def)
qed

text \<open>An entry of the substitution array that the restart accepts.\<close>

definition subst_ok :: "(int \<Rightarrow> bool) \<Rightarrow> cr_subst_files_array \<Rightarrow> bool" where
  "subst_ok is_open a \<longleftrightarrow>
     (if sa_nr a = 0 then sa_files a = None
      else \<exists>fs. sa_files a = Some fs \<and> (\<forall>i < sa_nr a.
             length (sf_file_id (fs ! i)) = subst_str_len \<and> is_open (sf_fd (fs ! i))))"

definition knows_fds :: "'a os_scheme \<Rightarrow> (int \<Rightarrow> bool) \<Rightarrow> bool" where
  "knows_fds s is_open \<longleftrightarrow> (\<forall>tr fd. (resp_ret (answers s tr (Fcntl_getfl fd)) = -1) = (\<not> is_open fd))"

lemma run_subst_check:
  assumes "knows_fds s is_open" and "\<forall>i \<in> set is. i < length fs"
  shows "\<exists>s'. run_state (firstM (subst_invalid (Some fs)) is) s =
      (List.find (\<lambda>i. \<not> (length (sf_file_id (fs ! i)) = subst_str_len \<and> is_open (sf_fd (fs ! i)))) is, s') \<and>
    frame s s' \<and> ksys_calls (trace s') = ksys_calls (trace s) \<and> faults (trace s') = faults (trace s)"
  using assms
proof (induction "is" arbitrary: s)
  case Nil
  then show ?case by auto
next
  case (Cons i ixs)
  show ?case
  proof (cases "length (sf_file_id (fs ! i)) = subst_str_len")
    case False
    then show ?thesis using Cons.prems by (auto simp: subst_invalid_def)
  next
    case True
    let ?s = "after (Fcntl_getfl (sf_fd (fs ! i))) s"
    have "knows_fds ?s is_open" using Cons.prems(1) by (simp add: knows_fds_def)
    from Cons.IH [OF this] Cons.prems(2) obtain s' where
      "run_state (firstM (subst_invalid (Some fs)) ixs) ?s =
        (List.find (\<lambda>i. \<not> (length (sf_file_id (fs ! i)) = subst_str_len \<and> is_open (sf_fd (fs ! i)))) ixs, s')"
      "frame ?s s'" "ksys_calls (trace s') = ksys_calls (trace ?s)" "faults (trace s') = faults (trace ?s)" by auto
    then show ?thesis using True Cons.prems frame_trans [OF frame_after]
      by (auto simp: subst_invalid_def [of "Some fs" i] knows_fds_def faults_def)
  qed
qed

text \<open>
  C25.  \<^verbatim>\<open>application_restart\<close> checks the file substitutions before it calls the kernel: with an
  identifier of the wrong length, a descriptor that is not open, or an array that contradicts its
  count it fails with EINVAL and calls no service; otherwise it makes exactly one restart request,
  carrying the substitutions unchanged.
\<close>

theorem application_restart_validates:
  assumes "knows_fds s is_open" and "can_open s"
    and "\<forall>fs. sa_files subst = Some fs \<longrightarrow> sa_nr subst \<le> length fs"
    and "sa_files subst = None \<longrightarrow> sa_nr subst = 0"
    and "run_state (application_restart app sn flags subst) s = (r, s')"
  shows "faults (trace s') = faults (trace s) \<and>
    (if subst_ok is_open subst
     then \<exists>q r'. rr_app_id q = app \<and> rr_chkpt_sn q = sn \<and> rr_flags q = flags \<and> rr_substitution q = subst \<and>
        ksys_calls (trace s') = ksys_calls (trace s) @ [(KSYS_APP_RESTART, DRst q, r')] \<and> (r' \<noteq> 0 \<longrightarrow> r = r')
     else r = -1 \<and> errno s' = EINVAL \<and> ksys_calls (trace s') = ksys_calls (trace s))"
proof -
  let ?root = "resp_ret (answers s (trace s) Uninit)" and ?s = "after Uninit s"
  let ?q = "\<lparr>rr_app_id = app, rr_chkpt_sn = sn, rr_flags = flags, rr_root_pid = ?root, rr_substitution = subst\<rparr>"
  let ?check = "if sa_nr subst \<noteq> 0
      then do { f \<leftarrow> firstM (subst_invalid (sa_files subst)) [0..<sa_nr subst]; return (f \<noteq> None) }
      else return (sa_files subst \<noteq> None)"
  have "knows_fds ?s is_open" using assms(1) by (simp add: knows_fds_def)
  then have "\<exists>s1. run_state ?check ?s = (\<not> subst_ok is_open subst, s1) \<and> frame ?s s1 \<and>
      ksys_calls (trace s1) = ksys_calls (trace s) \<and> faults (trace s1) = faults (trace s)"
  proof (cases "sa_nr subst = 0")
    case True
    then show ?thesis by (auto simp: subst_ok_def faults_def)
  next
    case False
    then obtain fs where fs: "sa_files subst = Some fs" "sa_nr subst \<le> length fs"
      using assms(3,4) by (cases "sa_files subst") auto
    from run_subst_check [OF \<open>knows_fds ?s is_open\<close>, of "[0..<sa_nr subst]" fs] fs
    obtain s1 where "run_state (firstM (subst_invalid (Some fs)) [0..<sa_nr subst]) ?s =
        (List.find (\<lambda>i. \<not> (length (sf_file_id (fs ! i)) = subst_str_len \<and> is_open (sf_fd (fs ! i))))
           [0..<sa_nr subst], s1)" "frame ?s s1"
      "ksys_calls (trace s1) = ksys_calls (trace ?s)" "faults (trace s1) = faults (trace ?s)" by auto
    moreover have "(List.find (\<lambda>i. \<not> (length (sf_file_id (fs ! i)) = subst_str_len \<and> is_open (sf_fd (fs ! i))))
        [0..<sa_nr subst] = None) = subst_ok is_open subst"
      using False fs(1) by (auto simp: find_None_iff subst_ok_def)
    ultimately show ?thesis using False fs(1) by (auto simp: faults_def)
  qed
  then obtain s1 where s1: "run_state ?check ?s = (\<not> subst_ok is_open subst, s1)" "frame ?s s1"
      "ksys_calls (trace s1) = ksys_calls (trace s)" "faults (trace s1) = faults (trace s)" by blast
  show ?thesis
  proof (cases "subst_ok is_open subst")
    case False
    then show ?thesis using assms(5) s1
      by (auto simp: application_restart_def uninit_def simp del: run_if)
  next
    case True
    have "can_open s1" using assms(2) can_open_frame [OF s1(2)] by (simp add: can_open_def)
    then have fd: "resp_ret (answers s1 (trace s1) services_path) \<noteq> -1" by (simp add: can_open_def)
    have "s' = snd (run_state (call_kerrighed_services KSYS_APP_RESTART (DRst ?q)) s1)"
      and "r = (case fst (run_state (call_kerrighed_services KSYS_APP_RESTART (DRst ?q)) s1) of
             (c, d) \<Rightarrow> if c = 0 then (case d of DRst q \<Rightarrow> rr_root_pid q | _ \<Rightarrow> ?root) else c)"
      using assms(5) s1(1) True
      by (auto simp: application_restart_def uninit_def split: prod.splits simp del: run_if)
    then show ?thesis using True s1 fd
      by (auto simp: run_call Let_def services_path_def faults_def)
  qed
qed

theorem application_restart_validates_witness:
  "\<exists>r s'. run_state (application_restart 7 1 0 \<lparr>sa_nr = 1, sa_files = Some [\<lparr>sf_fd = 1, sf_file_id = ''ABC''\<rparr>]\<rparr>)
      served_os = (r, s') \<and> r = -1 \<and> ksys_calls (trace s') = []"
proof -
  let ?a = "\<lparr>sa_nr = 1, sa_files = Some [\<lparr>sf_fd = 1, sf_file_id = ''ABC''\<rparr>]\<rparr>"
  obtain r s' where r: "run_state (application_restart 7 1 0 ?a) served_os = (r, s')" by fastforce
  have k: "knows_fds served_os (\<lambda>_. True)"
    by (simp add: knows_fds_def served_os_def idle_os_def)
  have "\<not> subst_ok (\<lambda>_. True) ?a" by (simp add: subst_ok_def subst_str_len_def)
  with application_restart_validates [OF k served_os_open _ _ r] r show ?thesis
    by (auto simp: served_os_def idle_os_def)
qed

end
