(* ===== verification/Krgadm.thy ===== *)
theory Krgadm
  imports Krgadm_Parse Libproc
begin

text \<open>
  \<^verbatim>\<open>tools/krgadm.c\<close>: the loops that wait for nodes and the commands that print, add and remove
  nodes.  A loop that waits for the cluster runs with fuel, one unit for each poll, and gives
  \<open>None\<close> when the fuel runs out; the functions above it hand that result on.
\<close>

section \<open>Waiting for nodes\<close>

definition pad_right :: "nat \<Rightarrow> string \<Rightarrow> string" where
  "pad_right n t = t @ replicate (n - length t) (CHR '' '')"

definition pad_left :: "nat \<Rightarrow> string \<Rightarrow> string" where
  "pad_left n t = replicate (n - length t) (CHR '' '') @ t"

definition backspaces :: "nat \<Rightarrow> string" where
  "backspaces n = replicate n (CHR 0x08)"

definition sleep :: "int \<Rightarrow> ('a os_scheme, unit) state" where
  "sleep n = do { syscall (Sleep n); return () }"

text \<open>Polling until enough nodes are present: \<open>Some None\<close> when the status cannot be read.\<close>

fun poll_count :: "nat \<Rightarrow> int \<Rightarrow> ('a krg_scheme, krg_nodes option option) state" where
  "poll_count 0 i = return None"
| "poll_count (Suc fuel) i = do {
     status \<leftarrow> krg_nodes_status;
     case status of None \<Rightarrow> do { set_errno ENOMEM; return (Some None) }
     | Some st \<Rightarrow> do {
         nodes_count \<leftarrow> krg_nodes_num_present st;
         emit (Out (pad_left 4 (show_int nodes_count) @ ''/'' @ pad_right 4 (show_int i)));
         if nodes_count < i then do {
           sleep POLL_NODES;
           emit (Out (backspaces 9));
           krg_nodes_destroy status;
           poll_count fuel i }
         else return (Some (Some st)) } }"

definition wait_report :: "int \<Rightarrow> ('a krg_scheme, unit) state" where
  "wait_report r = (if r = 0 then emit (Out '' done\<newline>'')
     else do { e \<leftarrow> gets errno; emit (Out ('' fail ('' @ show_int e @ '')\<newline>'')) })"

definition wait_for_nodes_count :: "nat \<Rightarrow> int \<Rightarrow> krg_node_set \<Rightarrow>
    ('a krg_scheme, (int \<times> krg_node_set) option) state" where
  "wait_for_nodes_count fuel i node_set =
     (if i > 0 then do {
        emit (Out (''Waiting for '' @ show_int i @ '' nodes to join... ''));
        mx \<leftarrow> gets kerrighed_max_nodes;
        if i < 1 \<or> i > mx then do {
          set_errno ERANGE;
          wait_report (-1);
          return (Some (-1, node_set)) }
        else do {
          p \<leftarrow> poll_count fuel i;
          case p of None \<Rightarrow> return None
          | Some None \<Rightarrow> do { wait_report (-1); return (Some (-1, node_set)) }
          | Some (Some st) \<Rightarrow> do {
              r \<leftarrow> foldM (\<lambda>acc _. do {
                     cur \<leftarrow> krg_nodes_next_present st (snd acc);
                     a \<leftarrow> krg_node_set_add (fst acc) cur;
                     return (fst a, cur) }) (node_set, -1) [1..i];
              krg_nodes_destroy (Some st);
              wait_report 0;
              return (Some (0, fst r)) } } }
      else return (Some (0, node_set)))"

fun poll_set :: "nat \<Rightarrow> krg_node_set \<Rightarrow> int \<Rightarrow> ('a krg_scheme, int option) state" where
  "poll_set 0 node_set node_count = return None"
| "poll_set (Suc fuel) node_set node_count = do {
     status \<leftarrow> krg_nodes_status;
     case status of None \<Rightarrow> return (Some (-1))
     | Some st \<Rightarrow> do {
         mx \<leftarrow> gets kerrighed_max_nodes;
         finished \<leftarrow> foldM (\<lambda>d bcl. do {
           c \<leftarrow> krg_node_set_contains node_set bcl;
           if c \<noteq> 0 then do {
             emit (Out (pad_left 4 (show_int bcl) @ '':''));
             p \<leftarrow> krg_nodes_is_present st bcl;
             if p \<noteq> 0 then do { emit (Out ''1''); return d }
             else do { emit (Out ''0''); return False } }
           else return d }) True [0..mx - 1];
         krg_nodes_destroy status;
         if \<not> finished then do {
           sleep POLL_NODES;
           forM (\<lambda>_. emit (Out (backspaces 6))) [0..node_count - 1];
           poll_set fuel node_set node_count }
         else return (Some 0) } }"

definition wait_for_nodes :: "nat \<Rightarrow> krg_node_set \<Rightarrow> ('a krg_scheme, int option) state" where
  "wait_for_nodes fuel node_set = do {
     w \<leftarrow> krg_node_set_weight node_set;
     if w > 0 then do {
       emit (Out ''Waiting for nodes to join... '');
       node_count \<leftarrow> krg_node_set_weight node_set;
       p \<leftarrow> poll_set fuel node_set node_count;
       case p of None \<Rightarrow> return None
       | Some r \<Rightarrow> do { wait_report r; return (Some r) } }
     else return (Some 0) }"


section \<open>The node commands\<close>

text \<open>
  A node set that could not be allocated is a null pointer that these functions hand on unchecked;
  the first access through it is a fault, and the model of the function ends there.
\<close>

definition nodes_status_all :: "krg_nodes \<Rightarrow> ('a krg_scheme, krg_node_set option) state" where
  "nodes_status_all st = do {
     c \<leftarrow> krg_node_set_create;
     case c of None \<Rightarrow> return None
     | Some ns \<Rightarrow> do {
         mx \<leftarrow> gets kerrighed_max_nodes;
         ns' \<leftarrow> foldM (\<lambda>ns bcl. do {
           x \<leftarrow> load (nodes_tab st) bcl;
           if x > status_code HOTPLUG_NODE_POSSIBLE then do { r \<leftarrow> krg_node_set_add ns bcl; return (fst r) }
           else return ns }) ns [0..mx - 1];
         return (Some ns') } }"

definition nodes_status_listed :: "krg_nodes \<Rightarrow> krg_node_set option \<Rightarrow> ('a krg_scheme, krg_node_set option) state"
  where
  "nodes_status_listed st node_set = (case node_set of None \<Rightarrow> return None
     | Some ns \<Rightarrow> do {
         r \<leftarrow> for_nodes ns () (\<lambda>ns _ node. do {
           x \<leftarrow> load (nodes_tab st) node;
           if x < status_code HOTPLUG_NODE_PRESENT
           then do { r \<leftarrow> krg_node_set_remove ns node; return (fst r, ()) }
           else return (ns, ()) });
         return (Some (fst r)) })"

definition nodes_status :: "krg_node_set option \<Rightarrow> mode_t \<Rightarrow> ('a krg_scheme, int) state" where
  "nodes_status node_set mode = do {
     status \<leftarrow> krg_nodes_status;
     case status of None \<Rightarrow> do { set_errno ENOMEM; perror ''Error adding nodes''; return (-1) }
     | Some st \<Rightarrow> do {
         sel \<leftarrow> (if mode = NODES_MODE_ALL then nodes_status_all st else nodes_status_listed st node_set);
         case sel of None \<Rightarrow> do { emit Fault; return (-1) }
         | Some ns \<Rightarrow> do {
             for_nodes ns () (\<lambda>ns _ node. do {
               x \<leftarrow> load (nodes_tab st) node;
               emit (Out (show_int node @ '':'' @ krg_status_str x @ ''\<newline>''));
               return (ns, ()) });
             return 0 } } }"

text \<open>
  The choice of the nodes to add; \<open>None\<close> when the fuel for waiting ran out, \<open>Inl r\<close> for an early
  return.  \<open>TOTAL\<close> falls through to \<open>COUNT\<close> with the count reduced by the nodes online.
\<close>

definition add_count :: "nat \<Rightarrow> int \<Rightarrow> ('a krg_scheme, (int + krg_node_set) option) state" where
  "add_count fuel n = do {
     c \<leftarrow> krg_node_set_create;
     case c of None \<Rightarrow> do { emit Fault; return (Some (Inl (-1))) }
     | Some ns \<Rightarrow> do {
         w \<leftarrow> wait_for_nodes_count fuel n ns;
         return (case w of None \<Rightarrow> None
           | Some (r, ns') \<Rightarrow> Some (if r = -1 then Inl (-1) else Inr ns')) } }"

definition add_list :: "nat \<Rightarrow> krg_nodes \<Rightarrow> krg_node_set option \<Rightarrow>
    ('a krg_scheme, (int + krg_node_set) option) state" where
  "add_list fuel st node_set = (case node_set of None \<Rightarrow> do { emit Fault; return (Some (Inl (-1))) }
     | Some ns \<Rightarrow> do {
         r \<leftarrow> for_nodes ns () (\<lambda>ns _ node. do {
           o' \<leftarrow> krg_nodes_is_online st node;
           if o' \<noteq> 0 then do { x \<leftarrow> krg_node_set_remove ns node; return (fst x, ()) }
           else return (ns, ()) });
         w \<leftarrow> wait_for_nodes fuel (fst r);
         return (case w of None \<Rightarrow> None
           | Some x \<Rightarrow> Some (if x = -1 then Inl (-1) else Inr (fst r))) })"

definition add_choose :: "nat \<Rightarrow> krg_nodes \<Rightarrow> krg_node_set option \<Rightarrow> int \<Rightarrow> mode_t \<Rightarrow>
    ('a krg_scheme, (int + krg_node_set) option) state" where
  "add_choose fuel st node_set n mode = (case mode of
     NODES_MODE_ALL \<Rightarrow> do {
       g \<leftarrow> krg_nodes_get_present st;
       case g of None \<Rightarrow> do {
           set_errno ENOMEM;
           perror ''Error looking for present nodes'';
           krg_node_set_destroy None;
           return (Some (Inl (-1))) }
       | Some ns \<Rightarrow> return (Some (Inr ns)) }
   | NODES_MODE_LIST \<Rightarrow> add_list fuel st node_set
   | NODES_MODE_TOTAL \<Rightarrow> do {
       k \<leftarrow> krg_nodes_num_online st;
       add_count fuel (to_int (n - k)) }
   | NODES_MODE_COUNT \<Rightarrow> add_count fuel n
   | NODES_MODE_UNSET \<Rightarrow> return (Some (Inl (-1))))"

text \<open>The common end of adding and removing: print the set, call the kernel, report.\<close>

definition apply_set :: "string \<Rightarrow> string \<Rightarrow> (krg_node_set \<Rightarrow> ('a krg_scheme, int) state) \<Rightarrow> krg_node_set \<Rightarrow>
    ('a krg_scheme, int) state" where
  "apply_set verb none call ns = do {
     w \<leftarrow> krg_node_set_weight ns;
     if w > 0 then do {
       str \<leftarrow> node_set_str ns;
       put_cstring (verb @ '' nodes '') str ''... '';
       r \<leftarrow> call ns;
       (if r = -1 then perror ''fail'' else emit (Out ''done\<newline>''));
       return r }
     else do { emit (Out none); return 0 } }"

definition nodes_add :: "nat \<Rightarrow> krg_node_set option \<Rightarrow> int \<Rightarrow> mode_t \<Rightarrow> ('a krg_scheme, int option) state"
  where
  "nodes_add fuel node_set n mode = do {
     status \<leftarrow> krg_nodes_status;
     case status of None \<Rightarrow> do { perror ''Error adding nodes''; return (Some (-1)) }
     | Some st \<Rightarrow> do {
         c \<leftarrow> add_choose fuel st node_set n mode;
         case c of None \<Rightarrow> return None
         | Some (Inl r) \<Rightarrow> return (Some r)
         | Some (Inr ns) \<Rightarrow> do {
             r \<leftarrow> apply_set ''Adding'' ''No present node to add.\<newline>'' krg_nodes_add ns;
             return (Some r) } } }"

definition remove_all :: "krg_nodes \<Rightarrow> ('a krg_scheme, int + krg_node_set) state" where
  "remove_all st = do {
     c \<leftarrow> krg_node_set_create;
     case c of None \<Rightarrow> do { emit Fault; return (Inl (-1)) }
     | Some ns \<Rightarrow> do {
         mx \<leftarrow> gets kerrighed_max_nodes;
         ns' \<leftarrow> foldM (\<lambda>ns bcl. do {
           o' \<leftarrow> krg_nodes_is_online st bcl;
           if o' \<noteq> 0 then do {
             me \<leftarrow> get_node_id;
             if me \<noteq> bcl then do { x \<leftarrow> krg_node_set_add ns bcl; return (fst x) } else return ns }
           else return ns }) ns [0..mx - 1];
         return (Inr ns') } }"

definition remove_list :: "krg_nodes \<Rightarrow> krg_node_set option \<Rightarrow> ('a krg_scheme, int + krg_node_set) state" where
  "remove_list st node_set = (case node_set of None \<Rightarrow> do { emit Fault; return (Inl (-1)) }
     | Some ns \<Rightarrow> do {
         r \<leftarrow> for_nodes ns () (\<lambda>ns _ node. do {
           o' \<leftarrow> krg_nodes_is_online st node;
           if o' = 0 then do {
             emit (Out (''Unable to suppress node '' @ show_int node @ '' (must be 'online').\<newline>''));
             x \<leftarrow> krg_node_set_remove ns node;
             return (fst x, ()) }
           else do {
             me \<leftarrow> get_node_id;
             if me = node then do {
               emit (Out ''Unable to suppress current node.\<newline>'');
               x \<leftarrow> krg_node_set_remove ns node;
               return (fst x, ()) }
             else return (ns, ()) } });
         return (Inr (fst r)) })"

text \<open>One step of the loop that keeps the first \<^verbatim>\<open>n\<close> online nodes other than the local one.\<close>

definition remove_step :: "int \<Rightarrow> krg_node_set \<Rightarrow> int \<Rightarrow> int \<Rightarrow> ('a krg_scheme, krg_node_set \<times> int) state" where
  "remove_step n ns bcl node =
     (if bcl < n then do {
        me \<leftarrow> get_node_id;
        if me = node then do { x \<leftarrow> krg_node_set_remove ns node; return (fst x, bcl) }
        else return (ns, bcl + 1) }
      else do { x \<leftarrow> krg_node_set_remove ns node; return (fst x, bcl) })"

definition remove_count :: "krg_nodes \<Rightarrow> int \<Rightarrow> ('a krg_scheme, int + krg_node_set) state" where
  "remove_count st n = do {
     g \<leftarrow> krg_nodes_get_online st;
     case g of None \<Rightarrow> do { emit Fault; return (Inl (-1)) }
     | Some ns \<Rightarrow> do {
         w \<leftarrow> krg_node_set_weight ns;
         if n < w then do {
           r \<leftarrow> for_nodes ns 0 (remove_step n);
           return (Inr (fst r)) }
         else do { emit (Out ''Not enough nodes to remove. Aborting.\<newline>''); return (Inl (-1)) } } }"

definition remove_choose :: "krg_nodes \<Rightarrow> krg_node_set option \<Rightarrow> int \<Rightarrow> mode_t \<Rightarrow>
    ('a krg_scheme, int + krg_node_set) state" where
  "remove_choose st node_set n mode = (case mode of
     NODES_MODE_ALL \<Rightarrow> remove_all st
   | NODES_MODE_LIST \<Rightarrow> remove_list st node_set
   | NODES_MODE_TOTAL \<Rightarrow> do {
       k \<leftarrow> krg_nodes_num_online st;
       remove_count st (to_int (k - n)) }
   | NODES_MODE_COUNT \<Rightarrow> remove_count st n
   | NODES_MODE_UNSET \<Rightarrow> return (Inl (-1)))"

definition nodes_remove :: "krg_node_set option \<Rightarrow> int \<Rightarrow> mode_t \<Rightarrow> ('a krg_scheme, int) state" where
  "nodes_remove node_set n mode = do {
     status \<leftarrow> krg_nodes_status;
     case status of None \<Rightarrow> do { perror ''Error removing nodes''; return (-1) }
     | Some st \<Rightarrow> do {
         c \<leftarrow> remove_choose st node_set n mode;
         case c of Inl r \<Rightarrow> return r
         | Inr ns \<Rightarrow> apply_set ''Removing'' ''No online node to remove.\<newline>'' krg_nodes_remove ns } }"

section \<open>Observing the cluster\<close>

text \<open>
  Events that change nothing: everything but faults, sleeps, and services other than the two
  queries of the tool.  \<open>looks s s'\<close>: only such events happened between \<open>s\<close> and \<open>s'\<close>.
\<close>

fun harmless :: "event \<Rightarrow> bool" where
  "harmless Fault = False"
| "harmless (Sys (Sleep n) r) = False"
| "harmless (Sys (Ioctl fd k d) r) = (k = KSYS_GET_NODE_ID \<or> k = KSYS_HOTPLUG_NODES)"
| "harmless e = True"

definition looks :: "'a os_scheme \<Rightarrow> 'a os_scheme \<Rightarrow> bool" where
  "looks s s' \<longleftrightarrow> answers s' = answers s \<and> os.more s' = os.more s \<and>
     (\<exists>es. trace s' = trace s @ es \<and> (\<forall>e \<in> set es. harmless e))"

text \<open>The services of a history that are not queries.\<close>

definition changes :: "event list \<Rightarrow> (ksys \<times> kdata \<times> int) list" where
  "changes es = filter (\<lambda>(k, _). k \<noteq> KSYS_GET_NODE_ID \<and> k \<noteq> KSYS_HOTPLUG_NODES) (ksys_calls es)"

text \<open>The polls of a history: the sleeps in it.\<close>

fun naps :: "event list \<Rightarrow> nat" where
  "naps [] = 0"
| "naps (Sys (Sleep n) r # es) = Suc (naps es)"
| "naps (e # es) = naps es"

lemma naps_append [simp]: "naps (es @ fs) = naps es + naps fs"
  by (induction es rule: naps.induct) simp_all

lemma changes_append [simp]: "changes (es @ fs) = changes es @ changes fs"
  by (simp add: changes_def)

lemma harmless_trace:
  "\<forall>e \<in> set es. harmless e \<Longrightarrow> changes es = [] \<and> naps es = 0 \<and> faults es = 0"
proof (induction es)
  case Nil
  then show ?case by (simp add: changes_def faults_def)
next
  case (Cons e es)
  then have "harmless e" "changes es = []" "naps es = 0" "faults es = 0" by auto
  then show ?case by (cases e rule: harmless.cases) (auto simp: changes_def faults_def)
qed

lemma looksD:
  assumes "looks s s'"
  shows "frame s s'" and "changes (trace s') = changes (trace s)" and "naps (trace s') = naps (trace s)"
    and "faults (trace s') = faults (trace s)"
  using assms harmless_trace by (auto simp: looks_def frame_def faults_def)

lemma looks_refl [simp]: "looks s s"
  by (simp add: looks_def)

lemma looks_trans: "looks s t \<Longrightarrow> looks t u \<Longrightarrow> looks s u"
  unfolding looks_def by (metis Un_iff append.assoc set_append)

lemma looks_emit [simp]: "harmless e \<Longrightarrow> looks s (s\<lparr>trace := trace s @ [e]\<rparr>)"
  by (simp add: looks_def)

lemma looks_after: "harmless (Sys q (answers s (trace s) q)) \<Longrightarrow> looks s (after q s)"
  by (simp add: looks_def)

text \<open>
  What the commands rely on: memory and services are available, the local node is \<open>me\<close>, and after
  \<open>k\<close> polls the status table of the kernel is \<open>tabs k\<close>, one byte for each possible node.
\<close>

definition sees :: "'a krg_scheme \<Rightarrow> (nat \<Rightarrow> int list) \<Rightarrow> int \<Rightarrow> bool" where
  "sees s tabs me \<longleftrightarrow> can_malloc s \<and> can_open s \<and>
     1 \<le> kerrighed_max_nodes s \<and> kerrighed_max_nodes s \<le> KERRIGHED_HARD_MAX_NODES \<and>
     (\<forall>k. int (length (tabs k)) = kerrighed_max_nodes s) \<and>
     (\<forall>tr fd d. resp_ret (answers s tr (Ioctl fd KSYS_HOTPLUG_NODES d)) = 0 \<and>
        resp_data (answers s tr (Ioctl fd KSYS_HOTPLUG_NODES d)) = DInts (tabs (naps tr))) \<and>
     (\<forall>tr fd d. resp_ret (answers s tr (Ioctl fd KSYS_GET_NODE_ID d)) = 0 \<and>
        resp_data (answers s tr (Ioctl fd KSYS_GET_NODE_ID d)) = DInt me)"

lemma sees_frame: "frame s s' \<Longrightarrow> sees s' tabs me = sees s tabs me"
  by (simp add: sees_def frame_krg can_malloc_frame can_open_frame frame_answers)

lemma seesD:
  assumes "sees s tabs me"
  shows "can_malloc s" and "can_open s" and "1 \<le> kerrighed_max_nodes s"
    and "kerrighed_max_nodes s \<le> KERRIGHED_HARD_MAX_NODES" and "kerrighed_max_nodes s \<le> 256"
    and "int (length (tabs k)) = kerrighed_max_nodes s"
  using assms by (simp_all add: sees_def KERRIGHED_HARD_MAX_NODES_def)

lemma run_status_seen:
  assumes "sees s tabs me"
  shows "\<exists>t s'. run_state krg_nodes_status s = (Some t, s') \<and> looks s s' \<and> nodes_ok s' t \<and>
    nodes_tab t = tabs (naps (trace s))"
proof -
  let ?mx = "kerrighed_max_nodes s"
  let ?s1 = "after (Malloc ?mx) (after (Malloc 8) s)"
  let ?fd = "resp_ret (answers s (trace ?s1) services_path)"
  let ?s2 = "after services_path ?s1"
  let ?s3 = "after (Close ?fd) (after (Ioctl ?fd KSYS_HOTPLUG_NODES NoData) ?s2)"
  have fd: "?fd \<noteq> -1" using seesD(2) [OF assms] by (simp add: can_open_def)
  have mx: "0 \<le> ?mx" "?mx mod 2 ^ 64 = ?mx" using seesD(3,5) [OF assms] by simp_all
  let ?blk = "pad_block (nat ?mx) (data_ints (resp_data (answers s (trace (after (Malloc 8) s)) (Malloc ?mx))))"
  have c: "run_state krg_nodes_create s = (Some \<lparr>nodes_tab = ?blk\<rparr>, ?s1)"
    using seesD(1) [OF assms] mx by (simp add: krg_nodes_create_def run_malloc can_malloc_def)
  have n: "naps (trace ?s2) = naps (trace s)" by (simp add: services_path_def)
  have r: "resp_ret (answers s (trace ?s2) (Ioctl ?fd KSYS_HOTPLUG_NODES NoData)) = 0"
    "resp_data (answers s (trace ?s2) (Ioctl ?fd KSYS_HOTPLUG_NODES NoData)) = DInts (tabs (naps (trace s)))"
    using assms n unfolding sees_def by metis+
  have k: "run_state (call_kerrighed_services KSYS_HOTPLUG_NODES NoData) ?s1 =
      ((0, DInts (tabs (naps (trace s)))), ?s3)"
    using fd r by (simp add: run_call Let_def)
  have "overwrite ?blk (tabs (naps (trace s))) = tabs (naps (trace s))"
    using seesD(6) [OF assms, of "naps (trace s)"] by (intro overwrite_same) simp
  then have "run_state krg_nodes_status s = (Some \<lparr>nodes_tab = tabs (naps (trace s))\<rparr>, ?s3)"
    using c k by (simp add: krg_nodes_status_def data_ints_def)
  moreover have "looks s ?s3" by (simp add: looks_def services_path_def)
  ultimately show ?thesis using seesD(6) [OF assms] by (simp add: ok_defs)
qed

lemma run_node_id_seen:
  assumes "sees s tabs me"
  shows "\<exists>s'. run_state get_node_id s = (me, s') \<and> looks s s'"
proof -
  let ?fd = "resp_ret (answers s (trace (after Uninit s)) services_path)"
  have "?fd \<noteq> -1" using seesD(2) [OF assms] by (simp add: can_open_def)
  moreover have "\<forall>tr fd d. resp_ret (answers s tr (Ioctl fd KSYS_GET_NODE_ID d)) = 0 \<and>
        resp_data (answers s tr (Ioctl fd KSYS_GET_NODE_ID d)) = DInt me"
    using assms unfolding sees_def by blast
  ultimately show ?thesis
    by (simp add: get_node_id_def uninit_def run_call Let_def looks_def services_path_def)
qed

lemma run_create_seen:
  assumes "sees s tabs me"
  shows "\<exists>ns s'. run_state krg_node_set_create s = (Some ns, s') \<and> looks s s' \<and> node_set_ok s' ns \<and>
    elems ns = {} \<and> subclusterid ns = 0"
proof -
  have "0 \<le> kerrighed_max_nodes s" "kerrighed_max_nodes s < 2 ^ 64" using seesD(3,5) [OF assms] by simp_all
  from run_create [OF seesD(1) [OF assms] this] show ?thesis by (auto simp: looks_def)
qed

lemma run_get_seen:
  assumes "sees s tabs me" and "nodes_ok s t"
  shows "\<exists>ns s'. run_state (krg_nodes_get t st) s = (Some ns, s') \<and> looks s s' \<and> node_set_ok s' ns \<and>
    elems ns = in_status t st \<and> subclusterid ns = 0"
proof -
  have "0 \<le> kerrighed_max_nodes s" "kerrighed_max_nodes s < 2 ^ 64" using seesD(3,5) [OF assms(1)] by simp_all
  from run_nodes_get [OF seesD(1) [OF assms(1)] this assms(2), of st] show ?thesis by (auto simp: looks_def)
qed

section \<open>Choosing the nodes to remove\<close>

definition chose :: "'a krg_scheme \<Rightarrow> int set \<Rightarrow> (int + krg_node_set) \<times> 'a krg_scheme \<Rightarrow> bool" where
  "chose s S x \<longleftrightarrow> (\<exists>ns s'. x = (Inr ns, s') \<and> looks s s' \<and> node_set_ok s' ns \<and> elems ns = S \<and>
     subclusterid ns = 0)"

lemma run_online:
  assumes "nodes_ok s t" and "0 \<le> n" and "n < kerrighed_max_nodes s"
  shows "run_state (krg_nodes_is_online t n) s = (if n \<in> in_status t HOTPLUG_NODE_ONLINE then 1 else 0, s)"
  using run_nodes_is [OF assms] by (simp add: krg_nodes_is_online_def)

lemma run_remove:
  assumes "node_set_ok s ns"
  obtains ns' r where "run_state (krg_node_set_remove ns n) s = ((ns', r), s)" and "node_set_ok s ns'"
    and "elems ns' = elems ns - {n}" and "subclusterid ns' = subclusterid ns"
proof -
  obtain ns' where ns': "run_state (krg_node_set_remove ns n) s =
      ((ns', if 0 \<le> n \<and> n < kerrighed_max_nodes s then 0 else -1), s)"
      "node_set_ok s ns'" "elems ns' = elems ns - {n}"
    using node_set.rem_run [OF assms, of n] by blast
  moreover have "subclusterid ns' = subclusterid ns"
    using ns'(1) assms by (auto simp: krg_node_set_remove_def ok_defs split: if_splits)
  ultimately show thesis by (rule that)
qed

lemma run_add:
  assumes "node_set_ok s ns" and "0 \<le> n" and "n < kerrighed_max_nodes s"
  obtains ns' r where "run_state (krg_node_set_add ns n) s = ((ns', r), s)" and "node_set_ok s ns'"
    and "elems ns' = insert n (elems ns)" and "subclusterid ns' = subclusterid ns"
proof -
  obtain ns' where ns': "run_state (krg_node_set_add ns n) s =
      ((ns', if 0 \<le> n \<and> n < kerrighed_max_nodes s then 0 else -1), s)"
      "node_set_ok s ns'" "elems ns' = elems ns \<union> ({n} \<inter> {0..<kerrighed_max_nodes s})"
    using node_set.add_run [OF assms(1), of n] by blast
  moreover have "subclusterid ns' = subclusterid ns"
    using ns'(1) assms by (auto simp: krg_node_set_add_def ok_defs split: if_splits)
  moreover have "elems ns' = insert n (elems ns)" using ns'(3) assms(2,3) by auto
  ultimately show thesis using that by blast
qed

lemma looks_ok:
  assumes "looks s s'"
  shows "node_set_ok s' ns = node_set_ok s ns" and "nodes_ok s' t = nodes_ok s t"
    and "sees s' tabs me = sees s tabs me" and "kerrighed_max_nodes s' = kerrighed_max_nodes s"
  using ok_frame [OF looksD(1) [OF assms]] sees_frame [OF looksD(1) [OF assms]]
    frame_krg [OF looksD(1) [OF assms]] by auto

lemma remove_all_chooses:
  assumes "sees s tabs me" and "nodes_ok s t"
  shows "chose s (in_status t HOTPLUG_NODE_ONLINE - {me}) (run_state (remove_all t) s)"
proof -
  let ?on = "in_status t HOTPLUG_NODE_ONLINE"
  let ?f = "\<lambda>ns bcl. do {
           o' \<leftarrow> krg_nodes_is_online t bcl;
           if o' \<noteq> 0 then do {
             me \<leftarrow> get_node_id;
             if me \<noteq> bcl then do { x \<leftarrow> krg_node_set_add ns bcl; return (fst x) } else return ns }
           else return ns }"
  let ?I = "\<lambda>ys ns s'. looks s s' \<and> node_set_ok s' ns \<and> subclusterid ns = 0 \<and>
      elems ns = {n \<in> set ys. n \<in> ?on \<and> n \<noteq> me}"
  obtain ns0 s0 where 0: "run_state krg_node_set_create s = (Some ns0, s0)" "?I [] ns0 s0"
    using run_create_seen [OF assms(1)] by auto
  have "\<exists>ns s'. run_state (foldM ?f ns0 [0..kerrighed_max_nodes s - 1]) s0 = (ns, s') \<and>
      ?I [0..kerrighed_max_nodes s - 1] ns s'"
  proof (rule foldM_inv)
    fix ys i zs ns s1
    assume ixs: "[0..kerrighed_max_nodes s - 1] = ys @ i # zs" and I: "?I ys ns s1"
    have "i \<in> set [0..kerrighed_max_nodes s - 1]" using ixs by simp
    then have i: "0 \<le> i" "i < kerrighed_max_nodes s1" using looks_ok(4) [of s s1] I by auto
    have t1: "nodes_ok s1 t" and e1: "sees s1 tabs me" using I assms looks_ok [of s s1] by auto
    note on = run_online [OF t1 i]
    obtain s2 where 2: "run_state get_node_id s1 = (me, s2)" "looks s1 s2"
      using run_node_id_seen [OF e1] by blast
    have s2: "looks s s2" "node_set_ok s2 ns" "kerrighed_max_nodes s2 = kerrighed_max_nodes s1"
      using I 2(2) looks_trans looks_ok [OF 2(2)] by blast+
    obtain ns2 r where 3: "run_state (krg_node_set_add ns i) s2 = ((ns2, r), s2)" "node_set_ok s2 ns2"
        "elems ns2 = insert i (elems ns)" "subclusterid ns2 = subclusterid ns"
      using run_add [OF s2(2), of i] i s2(3) by metis
    show "\<exists>ns' s'. run_state (?f ns i) s1 = (ns', s') \<and> ?I (ys @ [i]) ns' s'"
    proof (cases "i \<in> ?on \<and> i \<noteq> me")
      case True
      then have "run_state (?f ns i) s1 = (ns2, s2)" using on 2(1) 3(1) by simp
      then show ?thesis using True I 3 s2 by auto
    next
      case False
      then have "run_state (?f ns i) s1 = (ns, if i \<in> ?on then s2 else s1)" using on 2(1) by auto
      then show ?thesis using False I s2 by auto
    qed
  qed (use 0(2) in simp)
  moreover have "{n \<in> set [0..kerrighed_max_nodes s - 1]. n \<in> ?on \<and> n \<noteq> me} = ?on - {me}"
    using in_status_bounds(1) [OF assms(2)] by fastforce
  moreover have "kerrighed_max_nodes s0 = kerrighed_max_nodes s" using 0(2) looks_ok(4) by blast
  ultimately show ?thesis using 0(1) by (auto simp: remove_all_def chose_def)
qed

lemma remove_list_chooses:
  assumes "sees s tabs me" and "nodes_ok s t" and "node_set_ok s ns" and "subclusterid ns = 0"
  shows "chose s (elems ns \<inter> in_status t HOTPLUG_NODE_ONLINE - {me}) (run_state (remove_list t (Some ns)) s)"
proof -
  let ?on = "in_status t HOTPLUG_NODE_ONLINE"
  let ?R = "\<lambda>s' ns. looks s s' \<and> subclusterid ns = 0"
  let ?body = "\<lambda>ns _ node. do {
           o' \<leftarrow> krg_nodes_is_online t node;
           if o' = 0 then do {
             emit (Out (''Unable to suppress node '' @ show_int node @ '' (must be 'online').\<newline>''));
             x \<leftarrow> krg_node_set_remove ns node;
             return (fst x, ()) }
           else do {
             me \<leftarrow> get_node_id;
             if me = node then do {
               emit (Out ''Unable to suppress current node.\<newline>'');
               x \<leftarrow> krg_node_set_remove ns node;
               return (fst x, ()) }
             else return (ns, ()) } }"
  have "\<exists>ns' s'. run_state (for_nodes ns () ?body) s =
      ((ns', foldl (\<lambda>_ _. ()) () (sorted_list_of_set (elems ns))), s') \<and> ?R s' ns' \<and> node_set_ok s' ns' \<and>
      elems ns' = set (kept (\<lambda>_ x. x \<in> ?on \<and> x \<noteq> me) (\<lambda>_ _. ()) () (sorted_list_of_set (elems ns)))"
  proof (rule run_for_nodes_filter [where R = ?R])
    fix c b x s1 assume R: "?R s1 c" and ok: "node_set_ok s1 c" and x: "x \<in> elems c"
    have i: "0 \<le> x" "x < kerrighed_max_nodes s1" using node_set.els_bound [OF ok] x by auto
    have t1: "nodes_ok s1 t" and e1: "sees s1 tabs me" using R assms looks_ok [of s s1] by auto
    note on = run_online [OF t1 i]
    obtain s2 where 2: "run_state get_node_id s1 = (me, s2)" "looks s1 s2"
      using run_node_id_seen [OF e1] by blast
    show "\<exists>c' s'. run_state (?body c b x) s1 = ((c', ()), s') \<and> ?R s' c' \<and> node_set_ok s' c' \<and>
        elems c' = (if x \<in> ?on \<and> x \<noteq> me then elems c else elems c - {x})"
    proof (cases "x \<in> ?on")
      case False
      let ?e = "Out (''Unable to suppress node '' @ show_int x @ '' (must be 'online').\<newline>'')"
      let ?s = "s1\<lparr>trace := trace s1 @ [?e]\<rparr>"
      have l: "looks s1 ?s" by simp
      obtain c' r where "run_state (krg_node_set_remove c x) ?s = ((c', r), ?s)" "node_set_ok ?s c'"
          "elems c' = elems c - {x}" "subclusterid c' = subclusterid c"
        using run_remove [of ?s c x] ok looks_ok(1) [OF l] by blast
      then show ?thesis using False on R looks_trans [OF _ l] by auto
    next
      case True
      let ?s = "s2\<lparr>trace := trace s2 @ [Out ''Unable to suppress current node.\<newline>'']\<rparr>"
      have l: "looks s1 ?s" using 2(2) looks_trans [of s1 s2 ?s] by simp
      have l0: "looks s s2" "looks s ?s" using R 2(2) l looks_trans by blast+
      obtain c' r where "run_state (krg_node_set_remove c x) ?s = ((c', r), ?s)" "node_set_ok ?s c'"
          "elems c' = elems c - {x}" "subclusterid c' = subclusterid c"
        using run_remove [of ?s c x] ok looks_ok(1) [OF l] by blast
      then show ?thesis using True on R 2 l0 ok looks_ok(1) [OF 2(2)] by auto
    qed
  qed (use assms in simp_all)
  then show ?thesis
    using node_set.els_finite [OF assms(3)]
    by (auto simp: remove_list_def chose_def kept_const)
qed

text \<open>The counting filter keeps the first \<open>n - b\<close> elements other than the local node.\<close>

lemma kept_count:
  "kept (\<lambda>b x. b < n \<and> x \<noteq> me) (\<lambda>b x. if b < n \<and> x \<noteq> me then b + 1 else b) b xs =
   take (nat (n - b)) (filter (\<lambda>x. x \<noteq> me) xs)" for n b me :: int
proof (induction xs arbitrary: b)
  case (Cons x xs)
  have "nat (n - b) = Suc (nat (n - (b + 1)))" if "b < n" using that by simp
  then show ?case using Cons by (auto simp: not_less)
qed simp

definition first_others :: "int \<Rightarrow> int \<Rightarrow> int set \<Rightarrow> int set" where
  "first_others n me A = set (take (nat n) (filter (\<lambda>x. x \<noteq> me) (sorted_list_of_set A)))"

lemma remove_step_filters:
  assumes "looks s s1 \<and> subclusterid c = 0" and ok: "node_set_ok s1 c" and "x \<in> elems c" and "sees s tabs me"
  shows "\<exists>c' s'. run_state (remove_step n c b x) s1 = ((c', if b < n \<and> x \<noteq> me then b + 1 else b), s') \<and>
    (looks s s' \<and> subclusterid c' = 0) \<and> node_set_ok s' c' \<and>
    elems c' = (if b < n \<and> x \<noteq> me then elems c else elems c - {x})"
proof -
  have "sees s1 tabs me" using assms(1,4) looks_ok(3) by blast
  then obtain s2 where 2: "run_state get_node_id s1 = (me, s2)" "looks s1 s2"
    using run_node_id_seen by blast
  have s2: "looks s s2" "node_set_ok s2 c" using assms(1) ok 2(2) looks_trans looks_ok(1) by blast+
  obtain c1 r1 where 3: "run_state (krg_node_set_remove c x) s1 = ((c1, r1), s1)" "node_set_ok s1 c1"
      "elems c1 = elems c - {x}" "subclusterid c1 = subclusterid c"
    using run_remove [OF ok] by metis
  obtain c2 r2 where 4: "run_state (krg_node_set_remove c x) s2 = ((c2, r2), s2)" "node_set_ok s2 c2"
      "elems c2 = elems c - {x}" "subclusterid c2 = subclusterid c"
    using run_remove [OF s2(2)] by metis
  consider "\<not> b < n" | "b < n" "x = me" | "b < n" "x \<noteq> me" by blast
  then show ?thesis
  proof cases
    case 1
    then have "run_state (remove_step n c b x) s1 = ((c1, b), s1)" using 3(1) by (simp add: remove_step_def)
    then show ?thesis using 1 3 assms(1) by auto
  next
    case 2
    then have "run_state (remove_step n c b x) s1 = ((c2, b), s2)"
      using \<open>run_state get_node_id s1 = (me, s2)\<close> 4(1) by (simp add: remove_step_def)
    then show ?thesis using 2 4 s2 assms(1) by auto
  next
    case 3
    then have "run_state (remove_step n c b x) s1 = ((c, b + 1), s2)"
      using \<open>run_state get_node_id s1 = (me, s2)\<close> by (auto simp: remove_step_def)
    then show ?thesis using 3 s2 assms(1) by auto
  qed
qed

lemma remove_count_chooses:
  assumes "sees s tabs me" and "nodes_ok s t"
  defines "on \<equiv> in_status t HOTPLUG_NODE_ONLINE"
  shows "if n < int (card on) then chose s (first_others n me on) (run_state (remove_count t n) s)
    else \<exists>s'. run_state (remove_count t n) s = (Inl (-1), s') \<and> looks s s'"
proof -
  obtain ns s1 where 1: "run_state (krg_nodes_get_online t) s = (Some ns, s1)" "looks s s1"
      "node_set_ok s1 ns" "elems ns = on" "subclusterid ns = 0"
    using run_get_seen [OF assms(1,2)] unfolding krg_nodes_get_online_def on_def by metis
  have w: "run_state (krg_node_set_weight ns) s1 = (int (card on), s1)"
    using node_set.weight_run [OF 1(3)] 1(4) by simp
  show ?thesis
  proof (cases "n < int (card on)")
    case False
    then show ?thesis using 1(1,2) w looks_trans [OF 1(2) looks_emit]
      by (simp add: remove_count_def)
  next
    case True
    have "\<exists>ns' s'. run_state (for_nodes ns 0 (remove_step n)) s1 =
        ((ns', foldl (\<lambda>b x. if b < n \<and> x \<noteq> me then b + 1 else b) 0 (sorted_list_of_set (elems ns))), s') \<and>
        (looks s s' \<and> subclusterid ns' = 0) \<and> node_set_ok s' ns' \<and>
        elems ns' = set (kept (\<lambda>b x. b < n \<and> x \<noteq> me) (\<lambda>b x. if b < n \<and> x \<noteq> me then b + 1 else b) 0
          (sorted_list_of_set (elems ns)))"
    proof (rule run_for_nodes_filter [where R = "\<lambda>s' ns. looks s s' \<and> subclusterid ns = 0"])
      fix c b x s2
      assume "looks s s2 \<and> subclusterid c = 0" and "node_set_ok s2 c" and "x \<in> elems c"
      from remove_step_filters [OF this assms(1), of n b]
      show "\<exists>c' s'. run_state (remove_step n c b x) s2 = ((c', if b < n \<and> x \<noteq> me then b + 1 else b), s') \<and>
        (looks s s' \<and> subclusterid c' = 0) \<and> node_set_ok s' c' \<and>
        elems c' = (if b < n \<and> x \<noteq> me then elems c else elems c - {x})" .
    qed (use 1 in simp_all)
    then show ?thesis
      using True 1(1,4) w by (auto simp: remove_count_def chose_def kept_count first_others_def)
  qed
qed

section \<open>Sending the chosen nodes\<close>

text \<open>Fresh memory is zero; then the text that \<^verbatim>\<open>node_set_str\<close> leaves unterminated ends anyway.\<close>

definition zeroed :: "'a os_scheme \<Rightarrow> bool" where
  "zeroed s \<longleftrightarrow> (\<forall>tr n. data_ints (resp_data (answers s tr (Malloc n))) = [])"

lemma zeroed_frame: "frame s s' \<Longrightarrow> zeroed s' = zeroed s"
  by (simp add: zeroed_def frame_answers)

lemma put_set_str:
  fixes s :: "'a krg_scheme"
  assumes "sees s tabs me" and "node_set_ok s ns"
  shows "\<exists>s'. run_state (do { str \<leftarrow> node_set_str ns; put_cstring pre str post }) s = ((), s') \<and> frame s s' \<and>
    changes (trace s') = changes (trace s) \<and> naps (trace s') = naps (trace s) \<and>
    (zeroed s \<longrightarrow> faults (trace s') = faults (trace s))"
proof -
  let ?l = "kerrighed_max_nodes s * 4 + 2"
  let ?txt = "''['' @ join_fields (map show_int (sorted_list_of_set (elems ns))) @ '']''"
  let ?blk = "pad_block (nat ?l) (data_ints (resp_data (answers s (trace s) (Malloc ?l))))"
  let ?buf = "bytes_of ?txt @ drop (length ?txt) ?blk"
  let ?s = "after (Malloc ?l) s"
  have "kerrighed_max_nodes s \<le> 1000" using seesD(5) [OF assms(1)] by simp
  then have str: "run_state (node_set_str ns) s = (?buf, ?s)"
    using run_node_set_str [OF assms(2) seesD(3) [OF assms(1)] _ seesD(1) [OF assms(1)]] by simp
  have rng: "\<forall>x \<in> set (sorted_list_of_set (elems ns)). 0 \<le> x \<and> x < 1000"
    using node_set.els_bound [OF assms(2)] node_set.els_finite [OF assms(2)] seesD(5) [OF assms(1)] by fastforce
  have "card (elems ns) \<le> nat (kerrighed_max_nodes s)"
    using node_set.card_bound [OF assms(2)] by simp
  then have "length ?txt < nat ?l"
    using shown_nodes_length [OF rng] seesD(3) [OF assms(1)] by (auto simp: shown_nodes_def)
  then have z: "0 \<in> set ?buf" if "zeroed s"
    using that by (simp add: zeroed_def pad_block_def)
  have c: "changes (trace ?s) = changes (trace s)" "naps (trace ?s) = naps (trace s)"
    "faults (trace ?s) = faults (trace s)" by (simp_all add: changes_def faults_def)
  show ?thesis
    using str c z by (auto simp: put_cstring_def frame_def changes_def faults_def)
qed

lemma run_apply_set:
  fixes s :: "'a krg_scheme"
  assumes "sees s tabs me" and "node_set_ok s ns" and "subclusterid ns = 0"
    and "(call, k) \<in> {(krg_nodes_add, KSYS_HOTPLUG_ADD), (krg_nodes_remove, KSYS_HOTPLUG_REMOVE)}"
  shows "\<exists>r s'. run_state (apply_set verb none call ns) s = (r, s') \<and>
    (zeroed s \<longrightarrow> faults (trace s') = faults (trace s)) \<and>
    (if elems ns = {} then r = 0 \<and> changes (trace s') = changes (trace s)
     else \<exists>m. mask_nodes m = elems ns \<and> changes (trace s') = changes (trace s) @
       [(k, DMask \<lparr>hns_subclusterid = 0, hns_v = m\<rparr>, r)])"
proof -
  have w: "run_state (krg_node_set_weight ns) s = (int (card (elems ns)), s)"
    using node_set.weight_run [OF assms(2)] .
  have fin: "finite (elems ns)" using node_set.els_finite [OF assms(2)] .
  show ?thesis
  proof (cases "elems ns = {}")
    case True
    then show ?thesis using w by (simp add: apply_set_def changes_def faults_def)
  next
    case False
    obtain s1 where 1: "run_state (do { str \<leftarrow> node_set_str ns; put_cstring (verb @ '' nodes '') str ''... '' }) s =
        ((), s1)" "frame s s1" "changes (trace s1) = changes (trace s)"
        "zeroed s \<longrightarrow> faults (trace s1) = faults (trace s)"
      using put_set_str [OF assms(1,2), of "verb @ '' nodes ''" "''... ''"] by blast
    have e: "sees s1 tabs me" "node_set_ok s1 ns"
      using assms(1,2) sees_frame [OF 1(2)] ok_frame [OF 1(2)] by simp_all
    obtain r s2 m where 2: "run_state (call ns) s1 = (r, s2)" "mask_nodes m = elems ns"
        "faults (trace s2) = faults (trace s1)"
        "ksys_calls (trace s2) = ksys_calls (trace s1) @ [(k, DMask \<lparr>hns_subclusterid = 0, hns_v = m\<rparr>, r)]"
      using run_add_remove [OF e(2) seesD(4,2) [OF e(1)] assms(4)] assms(3) by metis
    have ch: "changes (trace s2) = changes (trace s1) @ [(k, DMask \<lparr>hns_subclusterid = 0, hns_v = m\<rparr>, r)]"
      using 2(4) assms(4) by (auto simp: changes_def)
    let ?e = "if r = -1 then Perror ''fail'' (errno s2) else Out ''done\<newline>''"
    have "0 < int (card (elems ns))" using False fin by (simp add: card_gt_0_iff)
    moreover obtain str s0 where "run_state (node_set_str ns) s = (str, s0)"
        "run_state (put_cstring (verb @ '' nodes '') str ''... '') s0 = ((), s1)"
      using 1(1) by (auto split: prod.splits)
    ultimately have "run_state (apply_set verb none call ns) s = (r, s2\<lparr>trace := trace s2 @ [?e]\<rparr>)"
      using w 2(1) by (simp add: apply_set_def)
    then show ?thesis using False ch 1(3,4) 2(2,3) by (auto simp: changes_def faults_def)
  qed
qed

section \<open>Properties: removing nodes\<close>

text \<open>What each mode of \<^verbatim>\<open>nodes del\<close> is to remove, given the nodes online, the local and the listed nodes.\<close>

fun to_remove :: "mode_t \<Rightarrow> int \<Rightarrow> int set \<Rightarrow> int \<Rightarrow> int set \<Rightarrow> int set option" where
  "to_remove NODES_MODE_ALL n on me listed = Some (on - {me})"
| "to_remove NODES_MODE_LIST n on me listed = Some (listed \<inter> on - {me})"
| "to_remove NODES_MODE_COUNT n on me listed =
     (if n < int (card on) then Some (first_others n me on) else None)"
| "to_remove NODES_MODE_TOTAL n on me listed =
     (if 0 < n then Some (first_others (int (card on) - n) me on) else None)"
| "to_remove NODES_MODE_UNSET n on me listed = None"

lemma remove_choose_chooses:
  assumes "sees s tabs me" and "nodes_ok s t"
    and "mode = NODES_MODE_LIST \<longrightarrow> (\<exists>ns. node_set = Some ns \<and> node_set_ok s ns \<and> subclusterid ns = 0)"
    and "INT_MIN + 257 \<le> n" and "n \<le> INT_MAX"
  shows "case to_remove mode n (in_status t HOTPLUG_NODE_ONLINE) me
      (case node_set of None \<Rightarrow> {} | Some ns \<Rightarrow> elems ns) of
    None \<Rightarrow> \<exists>s'. run_state (remove_choose t node_set n mode) s = (Inl (-1), s') \<and> looks s s'
  | Some S \<Rightarrow> chose s S (run_state (remove_choose t node_set n mode) s)"
proof (cases mode)
  case NODES_MODE_UNSET
  then show ?thesis by (simp add: remove_choose_def)
next
  case NODES_MODE_ALL
  then show ?thesis using remove_all_chooses [OF assms(1,2)] by (simp add: remove_choose_def)
next
  case NODES_MODE_LIST
  then show ?thesis using assms(3) remove_list_chooses [OF assms(1,2)] by (auto simp: remove_choose_def)
next
  case NODES_MODE_COUNT
  then show ?thesis using remove_count_chooses [OF assms(1,2), of n]
    by (auto simp: remove_choose_def split: if_splits)
next
  case NODES_MODE_TOTAL
  let ?k = "int (card (in_status t HOTPLUG_NODE_ONLINE))"
  have num: "run_state (krg_nodes_num_online t) s = (?k, s)"
    using run_nodes_num [OF assms(2)] by (simp add: krg_nodes_num_online_def)
  have "card (in_status t HOTPLUG_NODE_ONLINE) \<le> card {0..<kerrighed_max_nodes s}"
    by (rule card_mono) (use in_status_bounds(1) [OF assms(2)] in auto)
  then have "?k \<le> 256" using seesD(3,5) [OF assms(1)] by simp
  then have "to_int (?k - n) = ?k - n" using assms(4,5) by (intro to_int_id) auto
  then show ?thesis
    using NODES_MODE_TOTAL num remove_count_chooses [OF assms(1,2), of "?k - n"]
    by (auto simp: remove_choose_def split: if_splits)
qed

text \<open>The nodes a table shows online.\<close>

definition online_nodes :: "int list \<Rightarrow> int set" where
  "online_nodes tab = in_status \<lparr>nodes_tab = tab\<rparr> HOTPLUG_NODE_ONLINE"

text \<open>
  C3.  \<^verbatim>\<open>nodes_remove\<close> computes what its mode asks for and sends it once: in mode ALL every online
  node but the local one, in mode LIST the listed nodes that are online and not local, in mode
  COUNT the first n online nodes other than the local one, in mode TOTAL enough of them to leave n.
  When more nodes are asked for than are online it fails and sends nothing; an empty choice
  sends nothing either.  The local node is never removed.
\<close>

theorem nodes_remove_sends:
  fixes s :: "'a krg_scheme"
  assumes "sees s tabs me" and "INT_MIN + 257 \<le> n" and "n \<le> INT_MAX"
    and "mode = NODES_MODE_LIST \<longrightarrow> (\<exists>ns. node_set = Some ns \<and> node_set_ok s ns \<and> subclusterid ns = 0)"
  shows "\<exists>r s'. run_state (nodes_remove node_set n mode) s = (r, s') \<and>
    (zeroed s \<longrightarrow> faults (trace s') = faults (trace s)) \<and>
    (case to_remove mode n (online_nodes (tabs (naps (trace s)))) me
        (case node_set of None \<Rightarrow> {} | Some ns \<Rightarrow> elems ns) of
      None \<Rightarrow> r = -1 \<and> changes (trace s') = changes (trace s)
    | Some S \<Rightarrow> me \<notin> S \<and>
        (if S = {} then r = 0 \<and> changes (trace s') = changes (trace s)
         else \<exists>m. mask_nodes m = S \<and> changes (trace s') = changes (trace s) @
           [(KSYS_HOTPLUG_REMOVE, DMask \<lparr>hns_subclusterid = 0, hns_v = m\<rparr>, r)]))"
proof -
  obtain t s1 where 1: "run_state krg_nodes_status s = (Some t, s1)" "looks s s1" "nodes_ok s1 t"
      "nodes_tab t = tabs (naps (trace s))"
    using run_status_seen [OF assms(1)] by blast
  have on: "in_status t HOTPLUG_NODE_ONLINE = online_nodes (tabs (naps (trace s)))"
    using 1(4) by (simp add: online_nodes_def in_status_def)
  have e: "sees s1 tabs me"
    "mode = NODES_MODE_LIST \<longrightarrow> (\<exists>ns. node_set = Some ns \<and> node_set_ok s1 ns \<and> subclusterid ns = 0)"
    using assms looks_ok [OF 1(2)] by auto
  let ?listed = "case node_set of None \<Rightarrow> {} | Some ns \<Rightarrow> elems ns"
  note c = remove_choose_chooses [OF e(1) 1(3) e(2) assms(2,3), unfolded on]
  show ?thesis
  proof (cases "to_remove mode n (online_nodes (tabs (naps (trace s)))) me ?listed")
    case None
    then obtain s2 where "run_state (remove_choose t node_set n mode) s1 = (Inl (-1), s2)" "looks s1 s2"
      using c by auto
    then show ?thesis
      using None 1(1) looksD [OF looks_trans [OF 1(2)]] by (simp add: nodes_remove_def)
  next
    case (Some S)
    then obtain ns s2 where 2: "run_state (remove_choose t node_set n mode) s1 = (Inr ns, s2)"
        "looks s1 s2" "node_set_ok s2 ns" "elems ns = S" "subclusterid ns = 0"
      using c by (auto simp: chose_def)
    have l: "looks s s2" using looks_trans [OF 1(2) 2(2)] .
    have e2: "sees s2 tabs me" using assms(1) looks_ok [OF l] by simp
    obtain r s3 where 3: "run_state (apply_set ''Removing'' ''No online node to remove.\<newline>'' krg_nodes_remove ns) s2
        = (r, s3)" "zeroed s2 \<longrightarrow> faults (trace s3) = faults (trace s2)"
      "if elems ns = {} then r = 0 \<and> changes (trace s3) = changes (trace s2)
       else \<exists>m. mask_nodes m = elems ns \<and> changes (trace s3) = changes (trace s2) @
         [(KSYS_HOTPLUG_REMOVE, DMask \<lparr>hns_subclusterid = 0, hns_v = m\<rparr>, r)]"
      using run_apply_set [OF e2 2(3,5), of krg_nodes_remove KSYS_HOTPLUG_REMOVE] by blast
    have "me \<notin> S" using Some by (cases mode) (auto simp: first_others_def dest: in_set_takeD split: if_splits)
    moreover have "run_state (nodes_remove node_set n mode) s = (r, s3)"
      using 1(1) 2(1) 3(1) by (simp add: nodes_remove_def)
    ultimately show ?thesis
      using Some 2(4) 3(2,3) looksD [OF l] zeroed_frame [OF looksD(1) [OF l]] by (auto split: if_splits)
  qed
qed

lemma sees_sample:
  assumes "1 \<le> length tab" and "length tab \<le> 256"
  shows "sees (sample_cluster tab me) (\<lambda>_. tab) me"
  using assms unfolding sees_def by (simp add: KERRIGHED_HARD_MAX_NODES_def sample_kernel_def)

lemma online_nodes_upto: "online_nodes tab = set (filter (\<lambda>n. tab ! nat n = 3) [0..int (length tab) - 1])"
  by (auto simp: online_nodes_def in_status_def tab_set_def)

theorem nodes_remove_sends_witness:
  "\<exists>r s' m. run_state (nodes_remove None 1 NODES_MODE_COUNT) (sample_cluster [3, 3] 0) = (r, s') \<and>
    mask_nodes m = {1} \<and>
    changes (trace s') = [(KSYS_HOTPLUG_REMOVE, DMask \<lparr>hns_subclusterid = 0, hns_v = m\<rparr>, r)]"
proof -
  let ?s = "sample_cluster [3, 3] 0"
  have e: "sees ?s (\<lambda>_. [3, 3]) 0" by (rule sees_sample) simp_all
  have on: "online_nodes [3, 3] = {0, 1}" by (simp add: online_nodes_upto upto.simps)
  have "to_remove NODES_MODE_COUNT 1 (online_nodes [3, 3]) 0 {} = Some {1}"
    by (simp add: on first_others_def)
  with nodes_remove_sends [OF e, of 1 NODES_MODE_COUNT None] show ?thesis
    by (auto simp: changes_def simp del: to_remove.simps)
qed

section \<open>Properties: waiting and adding\<close>

definition present_nodes :: "int list \<Rightarrow> int set" where
  "present_nodes tab = in_status \<lparr>nodes_tab = tab\<rparr> HOTPLUG_NODE_PRESENT"

text \<open>\<open>waits j s s'\<close>: between \<open>s\<close> and \<open>s'\<close> the tool only looked and polled \<open>j\<close> times.\<close>

definition waits :: "nat \<Rightarrow> 'a os_scheme \<Rightarrow> 'a os_scheme \<Rightarrow> bool" where
  "waits j s s' \<longleftrightarrow> frame s s' \<and> changes (trace s') = changes (trace s) \<and>
     faults (trace s') = faults (trace s) \<and> naps (trace s') = naps (trace s) + j"

lemma waits_looks: "looks s s' \<Longrightarrow> waits 0 s s'"
  using looksD by (auto simp: waits_def)

lemma waits_trans: "waits i s t \<Longrightarrow> waits j t u \<Longrightarrow> waits (i + j) s u"
  by (auto simp: waits_def intro: frame_trans)

lemma waits_sleep: "waits 1 s (after (Sleep n) s)"
  by (simp add: waits_def changes_def faults_def)

lemma waits_ok:
  assumes "waits j s s'"
  shows "node_set_ok s' ns = node_set_ok s ns" and "nodes_ok s' t = nodes_ok s t"
    and "sees s' tabs me = sees s tabs me" and "kerrighed_max_nodes s' = kerrighed_max_nodes s"
  using assms ok_frame sees_frame frame_krg unfolding waits_def by blast+

lemma poll_count_step:
  assumes "sees s tabs me"
  shows "\<exists>t s1 s2. nodes_ok s1 t \<and> nodes_tab t = tabs (naps (trace s)) \<and> looks s s1 \<and> waits 1 s s2 \<and>
    run_state (poll_count (Suc fuel) i) s =
     (if int (card (present_nodes (tabs (naps (trace s))))) < i then run_state (poll_count fuel i) s2
      else (Some (Some t), s1))"
proof -
  obtain t s0 where 0: "run_state krg_nodes_status s = (Some t, s0)" "looks s s0" "nodes_ok s0 t"
      "nodes_tab t = tabs (naps (trace s))"
    using run_status_seen [OF assms] by blast
  let ?k = "int (card (present_nodes (tabs (naps (trace s)))))"
  let ?e = "Out (pad_left 4 (show_int ?k) @ ''/'' @ pad_right 4 (show_int i))"
  let ?s1 = "s0\<lparr>trace := trace s0 @ [?e]\<rparr>"
  let ?s2 = "after (Sleep POLL_NODES) ?s1"
  let ?s3 = "?s2\<lparr>trace := trace ?s2 @ [Out (backspaces 9)]\<rparr>"
  let ?s4 = "after Free (after Free ?s3)"
  have num: "run_state (krg_nodes_num_present t) s0 = (?k, s0)"
    using run_nodes_num [OF 0(3)] 0(4) by (simp add: krg_nodes_num_present_def present_nodes_def in_status_def)
  have l1: "looks s ?s1" using looks_trans [OF 0(2)] by simp
  have l2: "looks ?s2 ?s4" by (simp add: looks_def)
  have "waits (0 + (1 + 0)) s ?s4" using waits_looks [OF l1] waits_sleep waits_looks [OF l2] waits_trans by blast
  then have w: "waits 1 s ?s4" by simp
  have "run_state (poll_count (Suc fuel) i) s =
     (if ?k < i then run_state (poll_count fuel i) ?s4 else (Some (Some t), ?s1))"
    using 0(1) num by (simp add: sleep_def krg_nodes_destroy_def)
  moreover have "nodes_ok ?s1 t" using 0(3) by (simp add: ok_defs)
  ultimately show ?thesis using 0(4) l1 w by blast
qed

text \<open>The polling loop ends at the first poll that shows enough nodes, and at no earlier one.\<close>

lemma run_poll_count:
  assumes "sees s tabs me" and "\<forall>j < k. int (card (present_nodes (tabs (naps (trace s) + j)))) < i"
    and "i \<le> int (card (present_nodes (tabs (naps (trace s) + k))))"
  shows "if fuel \<le> k then fst (run_state (poll_count fuel i) s) = None
    else \<exists>t s'. run_state (poll_count fuel i) s = (Some (Some t), s') \<and> waits k s s' \<and> nodes_ok s' t \<and>
      nodes_tab t = tabs (naps (trace s) + k)"
  using assms
proof (induction fuel arbitrary: k s)
  case 0
  then show ?case by simp
next
  case (Suc fuel)
  obtain t s1 s2 where 1: "nodes_ok s1 t" "nodes_tab t = tabs (naps (trace s))" "looks s s1" "waits 1 s s2"
    "run_state (poll_count (Suc fuel) i) s =
     (if int (card (present_nodes (tabs (naps (trace s))))) < i then run_state (poll_count fuel i) s2
      else (Some (Some t), s1))"
    using poll_count_step [OF Suc.prems(1)] by blast
  show ?case
  proof (cases k)
    case 0
    then show ?thesis using 1 Suc.prems(3) waits_looks [OF 1(3)] by auto
  next
    case (Suc j)
    have less: "int (card (present_nodes (tabs (naps (trace s))))) < i"
      using Suc.prems(2) Suc by auto
    have e: "sees s2 tabs me" "naps (trace s2) = naps (trace s) + 1"
      using Suc.prems(1) waits_ok(3) [OF 1(4)] 1(4) by (auto simp: waits_def)
    have "if fuel \<le> j then fst (run_state (poll_count fuel i) s2) = None
      else \<exists>t s'. run_state (poll_count fuel i) s2 = (Some (Some t), s') \<and> waits j s2 s' \<and> nodes_ok s' t \<and>
        nodes_tab t = tabs (naps (trace s2) + j)"
      by (rule Suc.IH [OF e(1)]) (use Suc.prems(2,3) Suc e(2) in auto)
    then show ?thesis
      using 1(4,5) less Suc e(2) waits_trans [OF 1(4)] by (auto split: if_splits)
  qed
qed

text \<open>The first \<open>i\<close> members of a set of nodes.\<close>

definition first_nodes :: "int \<Rightarrow> int set \<Rightarrow> int set" where
  "first_nodes i A = set (take (nat i) (sorted_list_of_set A))"

lemma run_pick_present:
  assumes "nodes_ok s t" and "node_set_ok s ns" and "i \<le> int (card (in_status t HOTPLUG_NODE_PRESENT))"
  shows "\<exists>ns' cur. run_state (foldM (\<lambda>acc _. do {
           cur \<leftarrow> krg_nodes_next_present t (snd acc);
           a \<leftarrow> krg_node_set_add (fst acc) cur;
           return (fst a, cur) }) (ns, -1) [1..i]) s = ((ns', cur), s) \<and>
    node_set_ok s ns' \<and> elems ns' = elems ns \<union> first_nodes i (in_status t HOTPLUG_NODE_PRESENT) \<and>
    subclusterid ns' = subclusterid ns"
proof -
  let ?A = "in_status t HOTPLUG_NODE_PRESENT"
  let ?xs = "sorted_list_of_set ?A"
  let ?f = "\<lambda>acc _. do { cur \<leftarrow> krg_nodes_next_present t (snd acc);
     a \<leftarrow> krg_node_set_add (fst acc) cur; return (fst a, cur) }"
  let ?I = "\<lambda>ys acc s'. s' = s \<and> node_set_ok s (fst acc) \<and> subclusterid (fst acc) = subclusterid ns \<and>
      elems (fst acc) = elems ns \<union> set (take (length ys) ?xs) \<and> -1 \<le> snd acc \<and>
      from_node ?A (snd acc) = drop (length ys) ?xs"
  have A: "finite ?A" "?A \<subseteq> {0..<kerrighed_max_nodes s}" "?A \<subseteq> {0..}"
    using in_status_bounds(1) [OF assms(1)] in_status_bounds(2) by force+
  have "\<exists>acc s'. run_state (foldM ?f (ns, -1) [1..i]) s = (acc, s') \<and> ?I [1..i] acc s'"
  proof (rule foldM_inv)
    fix ys x zs acc s1 assume split: "[1..i] = ys @ x # zs" and I: "?I ys acc s1"
    let ?m = "length ys" and ?y = "next_in ?A (snd acc)"
    have "length [1..i] = ?m + 1 + length zs" using split by simp
    then have "?m < length ?xs" using assms(3) by simp
    then have ne: "drop ?m ?xs = ?xs ! ?m # drop (Suc ?m) ?xs" by (metis Cons_nth_drop_Suc)
    then have y: "?y = ?xs ! ?m" "from_node ?A ?y = drop (Suc ?m) ?xs"
      using I from_node_unfold [OF A(1,3), of "snd acc"] by (auto split: if_splits)
    have mem: "?y \<in> ?A" using y(1) \<open>?m < length ?xs\<close> A(1) by (metis nth_mem set_sorted_list_of_set)
    then have rng: "0 \<le> ?y" "?y < kerrighed_max_nodes s" using A(2) by auto
    obtain ns' r where ns': "run_state (krg_node_set_add (fst acc) ?y) s = ((ns', r), s)" "node_set_ok s ns'"
        "elems ns' = insert ?y (elems (fst acc))" "subclusterid ns' = subclusterid (fst acc)"
      using run_add [OF _ rng] I by metis
    have "run_state (krg_nodes_next_present t (snd acc)) s = (?y, s)"
      using status_iter.nxt_run [OF assms(1)] I by (simp add: krg_nodes_next_present_def)
    then have "run_state (?f acc x) s = ((ns', ?y), s)" using ns'(1) by simp
    moreover have "set (take (Suc ?m) ?xs) = insert ?y (set (take ?m ?xs))"
      using \<open>?m < length ?xs\<close> y(1) by (simp add: take_Suc_conv_app_nth)
    ultimately show "\<exists>acc' s'. run_state (?f acc x) s1 = (acc', s') \<and> ?I (ys @ [x]) acc' s'"
      using I ns' y(2) rng by auto
  qed (use assms(2) from_start [OF A(3)] in simp)
  then show ?thesis by (auto simp: first_nodes_def)
qed

lemma run_wait_count:
  assumes "sees s tabs me" and "node_set_ok s ns" and "0 < i" and "i \<le> kerrighed_max_nodes s"
    and "\<forall>j < k. int (card (present_nodes (tabs (naps (trace s) + j)))) < i"
    and "i \<le> int (card (present_nodes (tabs (naps (trace s) + k))))"
  shows "if fuel \<le> k then fst (run_state (wait_for_nodes_count fuel i ns) s) = None
    else \<exists>ns' s'. run_state (wait_for_nodes_count fuel i ns) s = (Some (0, ns'), s') \<and> waits k s s' \<and>
      node_set_ok s' ns' \<and> subclusterid ns' = subclusterid ns \<and>
      elems ns' = elems ns \<union> first_nodes i (present_nodes (tabs (naps (trace s) + k)))"
proof -
  let ?s0 = "s\<lparr>trace := trace s @ [Out (''Waiting for '' @ show_int i @ '' nodes to join... '')]\<rparr>"
  have l0: "looks s ?s0" by simp
  have n0: "naps (trace ?s0) = naps (trace s)" by simp
  note p = run_poll_count [of ?s0 tabs me k i fuel, unfolded n0, OF _ assms(5,6)]
  have e0: "sees ?s0 tabs me" "kerrighed_max_nodes ?s0 = kerrighed_max_nodes s"
    using assms(1) looks_ok [OF l0] by auto
  show ?thesis
  proof (cases "fuel \<le> k")
    case True
    then have "fst (run_state (poll_count fuel i) ?s0) = None" using p [OF e0(1)] by simp
    then show ?thesis
      using True assms(3,4) e0(2) by (auto simp: wait_for_nodes_count_def split: prod.splits)
  next
    case False
    then obtain t s1 where 1: "run_state (poll_count fuel i) ?s0 = (Some (Some t), s1)" "waits k ?s0 s1"
        "nodes_ok s1 t" "nodes_tab t = tabs (naps (trace s) + k)"
      using p [OF e0(1)] by auto
    have w: "waits k s s1" using waits_trans [OF waits_looks [OF l0] 1(2)] by simp
    have A: "in_status t HOTPLUG_NODE_PRESENT = present_nodes (tabs (naps (trace s) + k))"
      using 1(4) by (simp add: present_nodes_def in_status_def)
    have "node_set_ok s1 ns" using assms(2) waits_ok(1) [OF w] by simp
    from run_pick_present [OF 1(3) this, unfolded A, OF assms(6)] obtain ns' cur where
      2: "run_state (foldM (\<lambda>acc _. do {
             cur \<leftarrow> krg_nodes_next_present t (snd acc);
             a \<leftarrow> krg_node_set_add (fst acc) cur;
             return (fst a, cur) }) (ns, -1) [1..i]) s1 = ((ns', cur), s1)"
      "node_set_ok s1 ns'" "subclusterid ns' = subclusterid ns"
      "elems ns' = elems ns \<union> first_nodes i (present_nodes (tabs (naps (trace s) + k)))" by blast
    let ?s2 = "after Free (after Free s1)"
    let ?s3 = "?s2\<lparr>trace := trace ?s2 @ [Out '' done\<newline>'']\<rparr>"
    have l3: "looks s1 ?s3" by (simp add: looks_def)
    have "run_state (wait_for_nodes_count fuel i ns) s = (Some (0, ns'), ?s3)"
      using assms(3,4) e0(2) 1(1) 2(1)
      by (simp add: wait_for_nodes_count_def krg_nodes_destroy_def wait_report_def del: foldM.simps)
    moreover have "waits k s ?s3" using waits_trans [OF w waits_looks [OF l3]] by simp
    moreover have "node_set_ok ?s3 ns'" using 2(2) looks_ok(1) [OF l3] by simp
    ultimately show ?thesis using False 2(3,4) by auto
  qed
qed

lemma run_poll_scan:
  assumes "nodes_ok s t" and "node_set_ok s ns"
  shows "\<exists>s'. run_state (foldM (\<lambda>d bcl. do {
           c \<leftarrow> krg_node_set_contains ns bcl;
           if c \<noteq> 0 then do {
             emit (Out (pad_left 4 (show_int bcl) @ '':''));
             p \<leftarrow> krg_nodes_is_present t bcl;
             if p \<noteq> 0 then do { emit (Out ''1''); return d }
             else do { emit (Out ''0''); return False } }
           else return d }) True [0..kerrighed_max_nodes s - 1]) s =
      (elems ns \<subseteq> in_status t HOTPLUG_NODE_PRESENT, s') \<and> looks s s'"
proof -
  let ?P = "in_status t HOTPLUG_NODE_PRESENT"
  let ?f = "\<lambda>d bcl. do {
           c \<leftarrow> krg_node_set_contains ns bcl;
           if c \<noteq> 0 then do {
             emit (Out (pad_left 4 (show_int bcl) @ '':''));
             p \<leftarrow> krg_nodes_is_present t bcl;
             if p \<noteq> 0 then do { emit (Out ''1''); return d }
             else do { emit (Out ''0''); return False } }
           else return d }"
  let ?I = "\<lambda>ys d s'. looks s s' \<and> (d \<longleftrightarrow> elems ns \<inter> set ys \<subseteq> ?P)"
  have "\<exists>d s'. run_state (foldM ?f True [0..kerrighed_max_nodes s - 1]) s = (d, s') \<and>
      ?I [0..kerrighed_max_nodes s - 1] d s'"
  proof (rule foldM_inv)
    fix ys x zs d s1 assume split: "[0..kerrighed_max_nodes s - 1] = ys @ x # zs" and I: "?I ys d s1"
    have "x \<in> set [0..kerrighed_max_nodes s - 1]" using split by simp
    then have x: "0 \<le> x" "x < kerrighed_max_nodes s" by auto
    have ok: "nodes_ok s' t" "node_set_ok s' ns" "kerrighed_max_nodes s' = kerrighed_max_nodes s"
      if "looks s s'" for s' using assms looks_ok [OF that] by auto
    have l1: "looks s s1" using I by simp
    obtain c where c: "run_state (krg_node_set_contains ns x) s1 = (c, s1)" "c \<noteq> 0 \<longleftrightarrow> x \<in> elems ns"
      using node_set.contains_run [OF ok(2) [OF l1]] by blast
    show "\<exists>d' s'. run_state (?f d x) s1 = (d', s') \<and> ?I (ys @ [x]) d' s'"
    proof (cases "x \<in> elems ns")
      case False
      then show ?thesis using c I by auto
    next
      case True
      let ?s2 = "s1\<lparr>trace := trace s1 @ [Out (pad_left 4 (show_int x) @ '':'')]\<rparr>"
      let ?s3 = "?s2\<lparr>trace := trace ?s2 @ [Out (if x \<in> ?P then ''1'' else ''0'')]\<rparr>"
      have l2: "looks s ?s2" using looks_trans [OF l1] by simp
      have l3: "looks s ?s3" using looks_trans [OF l2 looks_emit] by simp
      have "run_state (krg_nodes_is_present t x) ?s2 = (if x \<in> ?P then 1 else 0, ?s2)"
        using run_nodes_is [OF ok(1) [OF l2] x(1), of HOTPLUG_NODE_PRESENT] x(2) ok(3) [OF l2]
        by (simp add: krg_nodes_is_present_def)
      then have "run_state (?f d x) s1 = ((if x \<in> ?P then d else False), ?s3)" using c True by simp
      then show ?thesis using l3 I True by auto
    qed
  qed simp
  moreover have "elems ns \<inter> set [0..kerrighed_max_nodes s - 1] = elems ns"
    using node_set.els_bound [OF assms(2)] by fastforce
  ultimately show ?thesis by (metis (no_types, lifting))
qed

lemma looks_forM_out: "\<exists>s'. run_state (forM (\<lambda>_. emit (Out m)) xs) s = ((), s') \<and> looks s s'"
proof (induction xs arbitrary: s)
  case (Cons x xs)
  let ?s = "s\<lparr>trace := trace s @ [Out m]\<rparr>"
  obtain s' where "run_state (forM (\<lambda>_. emit (Out m)) xs) ?s = ((), s')" "looks ?s s'" using Cons by blast
  then show ?case using looks_trans [of s ?s s'] by simp
qed simp

lemma poll_set_step:
  assumes "sees s tabs me" and "node_set_ok s ns"
  shows "\<exists>s1 s2. looks s s1 \<and> waits 1 s s2 \<and> run_state (poll_set (Suc fuel) ns w) s =
     (if elems ns \<subseteq> present_nodes (tabs (naps (trace s))) then (Some 0, s1)
      else run_state (poll_set fuel ns w) s2)"
proof -
  obtain t s0 where 0: "run_state krg_nodes_status s = (Some t, s0)" "looks s s0" "nodes_ok s0 t"
      "nodes_tab t = tabs (naps (trace s))"
    using run_status_seen [OF assms(1)] by blast
  have P: "in_status t HOTPLUG_NODE_PRESENT = present_nodes (tabs (naps (trace s)))"
    using 0(4) by (simp add: present_nodes_def in_status_def)
  have "node_set_ok s0 ns" using assms(2) looks_ok(1) [OF 0(2)] by simp
  from run_poll_scan [OF 0(3) this, unfolded P] obtain s1 where
    1: "run_state (foldM (\<lambda>d bcl. do {
           c \<leftarrow> krg_node_set_contains ns bcl;
           if c \<noteq> 0 then do {
             emit (Out (pad_left 4 (show_int bcl) @ '':''));
             p \<leftarrow> krg_nodes_is_present t bcl;
             if p \<noteq> 0 then do { emit (Out ''1''); return d }
             else do { emit (Out ''0''); return False } }
           else return d }) True [0..kerrighed_max_nodes s0 - 1]) s0 =
      (elems ns \<subseteq> present_nodes (tabs (naps (trace s))), s1)" "looks s0 s1" by blast
  let ?s2 = "after Free (after Free s1)"
  let ?s3 = "after (Sleep POLL_NODES) ?s2"
  obtain s4 where 4: "run_state (forM (\<lambda>_. emit (Out (backspaces 6))) [0..w - 1]) ?s3 = ((), s4)" "looks ?s3 s4"
    using looks_forM_out by blast
  have "looks s1 ?s2" by (simp add: looks_def)
  then have l2: "looks s ?s2" using looks_trans 0(2) 1(2) by blast
  have "waits (0 + (1 + 0)) s s4"
    using waits_trans [OF waits_looks [OF l2] waits_trans [OF waits_sleep waits_looks [OF 4(2)]]] .
  then have w: "waits 1 s s4" by simp
  have "run_state (poll_set (Suc fuel) ns w) s =
     (if elems ns \<subseteq> present_nodes (tabs (naps (trace s))) then (Some 0, ?s2) else run_state (poll_set fuel ns w) s4)"
    using 0(1) 1(1) 4(1) by (simp add: sleep_def krg_nodes_destroy_def del: foldM.simps)
  then show ?thesis using l2 w by blast
qed

lemma run_poll_set:
  assumes "sees s tabs me" and "node_set_ok s ns"
    and "\<forall>j < k. \<not> elems ns \<subseteq> present_nodes (tabs (naps (trace s) + j))"
    and "elems ns \<subseteq> present_nodes (tabs (naps (trace s) + k))"
  shows "if fuel \<le> k then fst (run_state (poll_set fuel ns w) s) = None
    else \<exists>s'. run_state (poll_set fuel ns w) s = (Some 0, s') \<and> waits k s s'"
  using assms
proof (induction fuel arbitrary: k s)
  case 0
  then show ?case by simp
next
  case (Suc fuel)
  obtain s1 s2 where 1: "looks s s1" "waits 1 s s2" "run_state (poll_set (Suc fuel) ns w) s =
     (if elems ns \<subseteq> present_nodes (tabs (naps (trace s))) then (Some 0, s1)
      else run_state (poll_set fuel ns w) s2)"
    using poll_set_step [OF Suc.prems(1,2)] by blast
  show ?case
  proof (cases k)
    case 0
    then show ?thesis using 1 Suc.prems(4) waits_looks [OF 1(1)] by auto
  next
    case (Suc j)
    have no: "\<not> elems ns \<subseteq> present_nodes (tabs (naps (trace s)))" using Suc.prems(3) Suc by force
    have e: "sees s2 tabs me" "node_set_ok s2 ns" "naps (trace s2) = naps (trace s) + 1"
      using Suc.prems(1,2) waits_ok [OF 1(2)] 1(2) by (auto simp: waits_def)
    have "if fuel \<le> j then fst (run_state (poll_set fuel ns w) s2) = None
      else \<exists>s'. run_state (poll_set fuel ns w) s2 = (Some 0, s') \<and> waits j s2 s'"
    proof (rule Suc.IH [OF e(1,2)])
      show "\<forall>i < j. \<not> elems ns \<subseteq> present_nodes (tabs (naps (trace s2) + i))"
      proof (intro allI impI)
        fix i assume "i < j"
        then show "\<not> elems ns \<subseteq> present_nodes (tabs (naps (trace s2) + i))"
          using Suc.prems(3) [rule_format, of "Suc i"] Suc e(3) by simp
      qed
    qed (use Suc.prems(4) Suc e(3) in simp)
    then show ?thesis using 1(3) no Suc waits_trans [OF 1(2)] by (auto split: if_splits)
  qed
qed

lemma run_wait_nodes:
  assumes "sees s tabs me" and "node_set_ok s ns" and "k < fuel"
    and "\<forall>j < k. \<not> elems ns \<subseteq> present_nodes (tabs (naps (trace s) + j))"
    and "elems ns \<subseteq> present_nodes (tabs (naps (trace s) + k))"
  shows "\<exists>s'. run_state (wait_for_nodes fuel ns) s = (Some 0, s') \<and> waits k s s'"
proof -
  have w: "run_state (krg_node_set_weight ns) s' = (int (card (elems ns)), s')" if "looks s s'" for s'
    using node_set.weight_run [of s' ns] looks_ok(1) [OF that] assms(2) by simp
  show ?thesis
  proof (cases "elems ns = {}")
    case True
    then have "k = 0" using assms(4) by (cases k) auto
    then show ?thesis using True w [of s] waits_looks [of s s] by (simp add: wait_for_nodes_def)
  next
    case False
    let ?s0 = "s\<lparr>trace := trace s @ [Out ''Waiting for nodes to join... '']\<rparr>"
    have l0: "looks s ?s0" by simp
    have e0: "sees ?s0 tabs me" "node_set_ok ?s0 ns" "naps (trace ?s0) = naps (trace s)"
      using assms(1,2) looks_ok [OF l0] by auto
    obtain s1 where 1: "run_state (poll_set fuel ns (int (card (elems ns)))) ?s0 = (Some 0, s1)" "waits k ?s0 s1"
      using run_poll_set [OF e0(1,2), of k fuel "int (card (elems ns))", unfolded e0(3)] assms(3-5) by auto
    let ?s2 = "s1\<lparr>trace := trace s1 @ [Out '' done\<newline>'']\<rparr>"
    have "0 < card (elems ns)" using False node_set.els_finite [OF assms(2)] by (simp add: card_gt_0_iff)
    then have "run_state (wait_for_nodes fuel ns) s = (Some 0, ?s2)"
      using w [of s] w [OF l0] 1(1) by (simp add: wait_for_nodes_def wait_report_def)
    moreover have "waits (0 + (k + 0)) s ?s2"
      using waits_trans [OF waits_looks [OF l0] waits_trans [OF 1(2) waits_looks]] by simp
    ultimately show ?thesis by auto
  qed
qed

text \<open>
  Given the nodes online when the command starts and the listed nodes: when a status table lets
  the wait of \<^verbatim>\<open>nodes add\<close> end, and the nodes it then adds.
\<close>

fun count_to_add :: "mode_t \<Rightarrow> int \<Rightarrow> int set \<Rightarrow> int" where
  "count_to_add NODES_MODE_TOTAL n on = n - int (card on)"
| "count_to_add mode n on = n"

definition add_ready :: "mode_t \<Rightarrow> int \<Rightarrow> int set \<Rightarrow> int set \<Rightarrow> int list \<Rightarrow> bool" where
  "add_ready mode n on listed tab =
     (mode = NODES_MODE_ALL \<or> mode = NODES_MODE_LIST \<and> listed - on \<subseteq> present_nodes tab \<or>
      (mode = NODES_MODE_COUNT \<or> mode = NODES_MODE_TOTAL) \<and>
        count_to_add mode n on \<le> int (card (present_nodes tab)))"

fun to_add :: "mode_t \<Rightarrow> int \<Rightarrow> int set \<Rightarrow> int set \<Rightarrow> int list \<Rightarrow> int set" where
  "to_add NODES_MODE_ALL n on listed tab = present_nodes tab"
| "to_add NODES_MODE_LIST n on listed tab = listed - on"
| "to_add mode n on listed tab = first_nodes (count_to_add mode n on) (present_nodes tab)"

definition waited :: "nat \<Rightarrow> 'a krg_scheme \<Rightarrow> int set \<Rightarrow> (int + krg_node_set) option \<times> 'a krg_scheme \<Rightarrow> bool" where
  "waited k s S x \<longleftrightarrow> (\<exists>ns s'. x = (Some (Inr ns), s') \<and> waits k s s' \<and> node_set_ok s' ns \<and> elems ns = S \<and>
     subclusterid ns = 0)"

lemma add_count_waits:
  assumes "sees s tabs me" and "i \<le> kerrighed_max_nodes s" and "k < fuel"
    and "\<forall>j < k. \<not> i \<le> int (card (present_nodes (tabs (naps (trace s) + j))))"
    and "i \<le> int (card (present_nodes (tabs (naps (trace s) + k))))"
  shows "waited k s (first_nodes i (present_nodes (tabs (naps (trace s) + k)))) (run_state (add_count fuel i) s)"
proof -
  obtain ns s0 where 0: "run_state krg_node_set_create s = (Some ns, s0)" "looks s s0" "node_set_ok s0 ns"
      "elems ns = {}" "subclusterid ns = 0"
    using run_create_seen [OF assms(1)] by blast
  have e: "sees s0 tabs me" "kerrighed_max_nodes s0 = kerrighed_max_nodes s" "naps (trace s0) = naps (trace s)"
    using assms(1) looks_ok [OF 0(2)] looksD [OF 0(2)] by auto
  show ?thesis
  proof (cases "0 < i")
    case True
    obtain ns' s1 where "run_state (wait_for_nodes_count fuel i ns) s0 = (Some (0, ns'), s1)" "waits k s0 s1"
        "node_set_ok s1 ns'" "subclusterid ns' = subclusterid ns"
        "elems ns' = elems ns \<union> first_nodes i (present_nodes (tabs (naps (trace s) + k)))"
      using run_wait_count [OF e(1) 0(3) True, of k fuel, unfolded e(2,3)] assms(2-5) by (auto simp: not_le)
    then show ?thesis using 0 waits_trans [OF waits_looks [OF 0(2)]] by (force simp: waited_def add_count_def)
  next
    case False
    then have "k = 0" using assms(4) by (cases k) force+
    then show ?thesis
      using False 0 waits_looks [OF 0(2)] by (simp add: waited_def add_count_def wait_for_nodes_count_def first_nodes_def)
  qed
qed

lemma add_list_waits:
  assumes "sees s tabs me" and "nodes_ok s t" and "node_set_ok s ns" and "subclusterid ns = 0" and "k < fuel"
  defines "S \<equiv> elems ns - in_status t HOTPLUG_NODE_ONLINE"
  assumes "\<forall>j < k. \<not> S \<subseteq> present_nodes (tabs (naps (trace s) + j))"
    and "S \<subseteq> present_nodes (tabs (naps (trace s) + k))"
  shows "waited k s S (run_state (add_list fuel t (Some ns)) s)"
proof -
  let ?on = "in_status t HOTPLUG_NODE_ONLINE"
  let ?R = "\<lambda>s' ns. s' = s \<and> subclusterid ns = 0"
  let ?body = "\<lambda>ns _ node. do {
           o' \<leftarrow> krg_nodes_is_online t node;
           if o' \<noteq> 0 then do { x \<leftarrow> krg_node_set_remove ns node; return (fst x, ()) }
           else return (ns, ()) }"
  have "\<exists>ns' s'. run_state (for_nodes ns () ?body) s =
      ((ns', foldl (\<lambda>_ _. ()) () (sorted_list_of_set (elems ns))), s') \<and> ?R s' ns' \<and> node_set_ok s' ns' \<and>
      elems ns' = set (kept (\<lambda>_ x. x \<notin> ?on) (\<lambda>_ _. ()) () (sorted_list_of_set (elems ns)))"
  proof (rule run_for_nodes_filter [where R = ?R])
    fix c b x s1 assume R: "?R s1 c" and ok: "node_set_ok s1 c" and x: "x \<in> elems c"
    have i: "0 \<le> x" "x < kerrighed_max_nodes s" using node_set.els_bound [OF ok] x R by auto
    obtain c' r where "run_state (krg_node_set_remove c x) s1 = ((c', r), s1)" "node_set_ok s1 c'"
        "elems c' = elems c - {x}" "subclusterid c' = subclusterid c"
      using run_remove [OF ok] by metis
    then show "\<exists>c' s'. run_state (?body c b x) s1 = ((c', ()), s') \<and> ?R s' c' \<and> node_set_ok s' c' \<and>
        elems c' = (if x \<notin> ?on then elems c else elems c - {x})"
      using run_online [OF assms(2) i] R ok by auto
  qed (use assms in simp_all)
  then obtain ns' where 1: "run_state (for_nodes ns () ?body) s = ((ns', ()), s)" "subclusterid ns' = 0"
      "node_set_ok s ns'" "elems ns' = S"
    using node_set.els_finite [OF assms(3)] by (auto simp: kept_const S_def)
  obtain s' where "run_state (wait_for_nodes fuel ns') s = (Some 0, s')" "waits k s s'"
    using run_wait_nodes [OF assms(1) 1(3) assms(5), unfolded 1(4), OF assms(7,8)] by blast
  then show ?thesis
    using 1 waits_ok(1) [of k s s'] by (simp add: waited_def add_list_def)
qed

lemma add_choose_waits:
  assumes "sees s tabs me" and "nodes_ok s t" and "nodes_tab t = tabs (naps (trace s))"
    and "mode \<noteq> NODES_MODE_UNSET"
    and "mode = NODES_MODE_LIST \<longrightarrow> (\<exists>ns. node_set = Some ns \<and> node_set_ok s ns \<and> subclusterid ns = 0)"
    and "INT_MIN + 256 \<le> n" and "n \<le> INT_MAX" and "k < fuel"
  defines "on \<equiv> in_status t HOTPLUG_NODE_ONLINE"
    and "listed \<equiv> case node_set of None \<Rightarrow> {} | Some ns \<Rightarrow> elems ns"
  assumes "count_to_add mode n on \<le> kerrighed_max_nodes s"
    and "\<forall>j < k. \<not> add_ready mode n on listed (tabs (naps (trace s) + j))"
    and "add_ready mode n on listed (tabs (naps (trace s) + k))"
  shows "waited k s (to_add mode n on listed (tabs (naps (trace s) + k)))
    (run_state (add_choose fuel t node_set n mode) s)"
proof (cases mode)
  case NODES_MODE_UNSET
  then show ?thesis using assms(4) by simp
next
  case NODES_MODE_ALL
  then have "k = 0" using assms(12) by (cases k) (auto simp: add_ready_def)
  moreover have "in_status t HOTPLUG_NODE_PRESENT = present_nodes (tabs (naps (trace s)))"
    using assms(3) by (simp add: present_nodes_def in_status_def)
  ultimately show ?thesis
    using NODES_MODE_ALL run_get_seen [OF assms(1,2), of HOTPLUG_NODE_PRESENT] waits_looks
    by (fastforce simp: add_choose_def waited_def krg_nodes_get_present_def)
next
  case NODES_MODE_LIST
  then obtain ns where ns: "node_set = Some ns" "node_set_ok s ns" "subclusterid ns = 0" using assms(5) by blast
  then show ?thesis
    using NODES_MODE_LIST assms(12,13) add_list_waits [OF assms(1,2) ns(2,3) assms(8)]
    by (simp add: add_choose_def add_ready_def on_def listed_def)
next
  case NODES_MODE_COUNT
  then show ?thesis
    using assms(11-13) add_count_waits [OF assms(1) _ assms(8), of n]
    by (simp add: add_choose_def add_ready_def)
next
  case NODES_MODE_TOTAL
  have num: "run_state (krg_nodes_num_online t) s = (int (card on), s)"
    using run_nodes_num [OF assms(2)] by (simp add: krg_nodes_num_online_def on_def)
  have "card on \<le> card {0..<kerrighed_max_nodes s}"
    by (rule card_mono) (use in_status_bounds(1) [OF assms(2)] in \<open>auto simp: on_def\<close>)
  then have "int (card on) \<le> 256" using seesD(3,5) [OF assms(1)] by simp
  then have "to_int (n - int (card on)) = n - int (card on)" using assms(6,7) by (intro to_int_id) auto
  then show ?thesis
    using NODES_MODE_TOTAL num assms(11-13) add_count_waits [OF assms(1) _ assms(8), of "n - int (card on)"]
    by (simp add: add_choose_def add_ready_def)
qed

text \<open>
  C6.  \<^verbatim>\<open>nodes_add\<close> terminates as soon as the cluster lets it, and adds what its mode asks for: with
  the first status table that shows enough nodes present after k polls, and fuel for more than k
  polls, it makes one request to the kernel whose mask holds the chosen nodes (all present nodes,
  the listed nodes that were not online, or the first n present nodes), and none if there is
  nothing to add.
\<close>

theorem nodes_add_sends:
  fixes s :: "'a krg_scheme"
  assumes "sees s tabs me" and "mode \<noteq> NODES_MODE_UNSET"
    and "mode = NODES_MODE_LIST \<longrightarrow> (\<exists>ns. node_set = Some ns \<and> node_set_ok s ns \<and> subclusterid ns = 0)"
    and "INT_MIN + 256 \<le> n" and "n \<le> INT_MAX" and "k < fuel"
  defines "on \<equiv> online_nodes (tabs (naps (trace s)))"
    and "listed \<equiv> case node_set of None \<Rightarrow> {} | Some ns \<Rightarrow> elems ns"
  defines "S \<equiv> to_add mode n on listed (tabs (naps (trace s) + k))"
  assumes "count_to_add mode n on \<le> kerrighed_max_nodes s"
    and "\<forall>j < k. \<not> add_ready mode n on listed (tabs (naps (trace s) + j))"
    and "add_ready mode n on listed (tabs (naps (trace s) + k))"
  shows "\<exists>r s'. run_state (nodes_add fuel node_set n mode) s = (Some r, s') \<and>
    (zeroed s \<longrightarrow> faults (trace s') = faults (trace s)) \<and>
    (if S = {} then r = 0 \<and> changes (trace s') = changes (trace s)
     else \<exists>m. mask_nodes m = S \<and> changes (trace s') = changes (trace s) @
       [(KSYS_HOTPLUG_ADD, DMask \<lparr>hns_subclusterid = 0, hns_v = m\<rparr>, r)])"
proof -
  obtain t s1 where 1: "run_state krg_nodes_status s = (Some t, s1)" "looks s s1" "nodes_ok s1 t"
      "nodes_tab t = tabs (naps (trace s))"
    using run_status_seen [OF assms(1)] by blast
  have on: "in_status t HOTPLUG_NODE_ONLINE = on"
    using 1(4) by (simp add: online_nodes_def in_status_def on_def)
  have n1: "naps (trace s1) = naps (trace s)" using looksD(3) [OF 1(2)] .
  have e: "sees s1 tabs me" "kerrighed_max_nodes s1 = kerrighed_max_nodes s"
    "mode = NODES_MODE_LIST \<longrightarrow> (\<exists>ns. node_set = Some ns \<and> node_set_ok s1 ns \<and> subclusterid ns = 0)"
    using assms(1,3) looks_ok [OF 1(2)] by auto
  have "waited k s1 S (run_state (add_choose fuel t node_set n mode) s1)"
    using add_choose_waits [OF e(1) 1(3) _ assms(2) e(3) assms(4-6)] assms(10-12) 1(4) n1 e(2)
    by (simp add: on S_def listed_def)
  then obtain ns s2 where 2: "run_state (add_choose fuel t node_set n mode) s1 = (Some (Inr ns), s2)"
      "waits k s1 s2" "node_set_ok s2 ns" "elems ns = S" "subclusterid ns = 0"
    by (auto simp: waited_def)
  have w: "waits k s s2" using waits_trans [OF waits_looks [OF 1(2)] 2(2)] by simp
  have e2: "sees s2 tabs me" using assms(1) waits_ok(3) [OF w] by simp
  obtain r s3 where 3: "run_state (apply_set ''Adding'' ''No present node to add.\<newline>'' krg_nodes_add ns) s2 = (r, s3)"
      "zeroed s2 \<longrightarrow> faults (trace s3) = faults (trace s2)"
      "if elems ns = {} then r = 0 \<and> changes (trace s3) = changes (trace s2)
       else \<exists>m. mask_nodes m = elems ns \<and> changes (trace s3) = changes (trace s2) @
         [(KSYS_HOTPLUG_ADD, DMask \<lparr>hns_subclusterid = 0, hns_v = m\<rparr>, r)]"
    using run_apply_set [OF e2 2(3,5), of krg_nodes_add KSYS_HOTPLUG_ADD] by blast
  have "run_state (nodes_add fuel node_set n mode) s = (Some r, s3)"
    using 1(1) 2(1) 3(1) by (simp add: nodes_add_def)
  moreover have "zeroed s2 = zeroed s" "faults (trace s2) = faults (trace s)" "changes (trace s2) = changes (trace s)"
    using w zeroed_frame by (auto simp: waits_def)
  ultimately show ?thesis using 2(4) 3(2,3) by (auto split: if_splits)
qed

lemma present_nodes_upto: "present_nodes tab = set (filter (\<lambda>n. tab ! nat n = 2) [0..int (length tab) - 1])"
  by (auto simp: present_nodes_def in_status_def tab_set_def)

theorem nodes_add_sends_witness:
  "\<exists>r s' m. run_state (nodes_add 1 None 1 NODES_MODE_COUNT) (sample_cluster [3, 2, 2] 0) = (Some r, s') \<and>
    mask_nodes m = {1} \<and>
    changes (trace s') = [(KSYS_HOTPLUG_ADD, DMask \<lparr>hns_subclusterid = 0, hns_v = m\<rparr>, r)]"
proof -
  let ?s = "sample_cluster [3, 2, 2] 0"
  have e: "sees ?s (\<lambda>_. [3, 2, 2]) 0" by (rule sees_sample) simp_all
  have p: "present_nodes [3, 2, 2] = {1, 2}" by (simp add: present_nodes_upto upto.simps)
  have r: "add_ready NODES_MODE_COUNT 1 on {} [3, 2, 2]" for on by (simp add: add_ready_def p)
  have t: "to_add NODES_MODE_COUNT 1 on {} [3, 2, 2] = {1}" for on by (simp add: p first_nodes_def)
  have "\<exists>r s'. run_state (nodes_add 1 None 1 NODES_MODE_COUNT) ?s = (Some r, s') \<and>
    (\<exists>m. mask_nodes m = {1} \<and> changes (trace s') = changes (trace ?s) @
       [(KSYS_HOTPLUG_ADD, DMask \<lparr>hns_subclusterid = 0, hns_v = m\<rparr>, r)])"
    using nodes_add_sends [OF e, of NODES_MODE_COUNT None 1 0 1] r t by (auto simp del: to_add.simps)
  then show ?thesis by (auto simp: changes_def)
qed

text \<open>
  C29.  \<^verbatim>\<open>wait_for_nodes_count\<close> polls until enough nodes are present: if the k-th poll is the first
  whose table shows at least i present nodes, it polls exactly k times, never returns with fewer
  polls, and leaves the first i present nodes of that table added to the set.
\<close>

theorem wait_for_nodes_count_polls:
  assumes "sees s tabs me" and "node_set_ok s ns" and "0 < i" and "i \<le> kerrighed_max_nodes s"
    and "\<forall>j < k. int (card (present_nodes (tabs (naps (trace s) + j)))) < i"
    and "i \<le> int (card (present_nodes (tabs (naps (trace s) + k))))"
  shows "if fuel \<le> k then fst (run_state (wait_for_nodes_count fuel i ns) s) = None
    else \<exists>ns' s'. run_state (wait_for_nodes_count fuel i ns) s = (Some (0, ns'), s') \<and>
      naps (trace s') = naps (trace s) + k \<and> changes (trace s') = changes (trace s) \<and>
      faults (trace s') = faults (trace s) \<and>
      elems ns' = elems ns \<union> first_nodes i (present_nodes (tabs (naps (trace s) + k)))"
  using run_wait_count [OF assms, of fuel] by (auto simp: waits_def split: if_splits)

text \<open>A kernel in which the second node appears after three polls.\<close>

definition late_kernel :: "event list \<Rightarrow> req \<Rightarrow> resp" where
  "late_kernel tr q = sample_kernel (if naps tr < 3 then [2, 1] else [2, 2]) 0 tr q"

definition late_cluster :: krg where
  "late_cluster = (sample_cluster [2, 1] 0)\<lparr>answers := late_kernel\<rparr>"

lemma late_cluster_sees: "sees late_cluster (\<lambda>k. if k < 3 then [2, 1] else [2, 2]) 0"
  by (simp add: sees_def late_cluster_def late_kernel_def sample_kernel_def can_malloc_def can_open_def
      services_path_def sample_cluster_def KERRIGHED_HARD_MAX_NODES_def)

theorem wait_for_nodes_count_polls_witness:
  "\<exists>ns' s'. run_state (wait_for_nodes_count 4 2 \<lparr>subclusterid = 0, ns_v = [0, 0]\<rparr>) late_cluster
     = (Some (0, ns'), s') \<and> naps (trace s') = 3"
proof -
  have p: "present_nodes [2, 1] = {0}" "present_nodes [2, 2] = {0, 1}"
    by (simp_all add: present_nodes_upto upto.simps)
  have l: "kerrighed_max_nodes late_cluster = 2" "trace late_cluster = []"
    by (simp_all add: late_cluster_def sample_cluster_def)
  have ok: "node_set_ok late_cluster \<lparr>subclusterid = 0, ns_v = [0, 0]\<rparr>" using l by (simp add: ok_defs)
  show ?thesis
    using wait_for_nodes_count_polls [OF late_cluster_sees ok, of 2 3 4] l p by (auto simp: less_Suc_eq)
qed

end
