(* ===== verification/Krgadm_Cli.thy ===== *)
theory Krgadm_Cli
  imports Krgadm
begin

text \<open>
  The command line of \<^verbatim>\<open>tools/krgadm.c\<close>: the cluster commands, the option loop of the node commands
  and \<^verbatim>\<open>main\<close>.  A result is the exit status, or \<open>None\<close> when the fuel for waiting ran out.
\<close>

section \<open>Messages\<close>

definition krgadm_version :: "string \<Rightarrow> string \<Rightarrow> ('a os_scheme, unit) state" where
  "krgadm_version VERSION program_name = out_lines
     [program_name @ '' '' @ VERSION,
      ''Copyright (C) 2010 Kerlabs.'',
      ''This is free software; see source for copying conditions. There is NO'',
      ''warranty; not even for MERCHANBILITY or FITNESS FOR A PARTICULAR PURPOSE.'',
      '''']"

definition krgadm_help :: "string \<Rightarrow> ('a os_scheme, unit) state" where
  "krgadm_help program_name = do {
     out_lines
     [''Usage: '' @ program_name @ '' [-h|--help] [--version]'',
      ''  or:  '' @ program_name @ '' cluster {status|poweroff|reboot}'',
      ''  or:  '' @ program_name @ '' nodes status [-n|--nodes]'',
      ''  or:  '' @ program_name @
        '' nodes {add|del} {(-n|--nodes node_list) | (-c|--count node_count) | (-t|--total node_count) |(-a|--all)}''];
     out_lines
     ['''',
      ''Cluster Mode:'',
      ''  status            print cluster status'',
      ''  poweroff          poweroff all nodes in the cluster'',
      ''  reboot            restart all nodes in the cluster'',
      '''',
      ''Nodes Mode:'',
      ''  status            print status of each present nodes'',
      ''  add               add nodes to the running cluster'',
      ''  del               remove nodes from the running cluster'',
      '''',
      ''Options:'',
      ''  -n, --nodes       list of nodes to add/del'',
      ''                    ie: 2,3,6-10,42-45'',
      ''  -c, --count       number of nodes to add/del'',
      ''  -t, --total       number of nodes in resulting cluster'',
      ''  -a, --all         apply to all nodes'',
      '''',
      ''Node Status:'',
      ''  present           available for integrating the cluster'',
      ''  online            participating in the cluster'',
      ''''] }"

section \<open>Cluster commands\<close>

text \<open>
  The table of \<^verbatim>\<open>krg_nodes_status\<close> is not freed; when there is none the counting loop reads through
  a null pointer.
\<close>

definition cluster_status :: "('a krg_scheme, int) state" where
  "cluster_status = do {
     cs \<leftarrow> krg_cluster_status;
     i \<leftarrow> (case cs of None \<Rightarrow> return (-1)
       | Some c \<Rightarrow> do {
           up \<leftarrow> krg_clusters_is_up c 0;
           if up \<noteq> 0 then do {
             st \<leftarrow> krg_nodes_status;
             case st of None \<Rightarrow> do { emit Fault; return (-1) }
             | Some t \<Rightarrow> krg_nodes_num_online t }
           else return 0 });
     krg_clusters_destroy cs;
     return i }"

text \<open>Powering off and rebooting differ in their message and in the service they call.\<close>

definition cluster_stop :: "string \<Rightarrow> (int \<Rightarrow> ('a krg_scheme, int) state) \<Rightarrow> ('a krg_scheme, int) state" where
  "cluster_stop msg call = do {
     emit (Out msg);
     st \<leftarrow> cluster_status;
     if st = 0 then do { emit (Out ''fail (cluster not running)\<newline>''); return EXIT_FAILURE }
     else do {
       r \<leftarrow> call 0;
       if r = -1 then do {
         e \<leftarrow> gets errno;
         emit (Out (''fail ('' @ show_int e @ '')\<newline>''));
         return EXIT_FAILURE }
       else do { emit (Out ''done\<newline>''); return EXIT_SUCCESS } } }"

definition cluster_action :: "string list \<Rightarrow> action" where
  "cluster_action argv =
     (case argv of [] \<Rightarrow> STATUS
      | w # _ \<Rightarrow> if w = ''status'' then STATUS
                else if w = ''poweroff'' then POWEROFF
                else if w = ''reboot'' then REBOOT else NONE)"

definition cluster :: "string list \<Rightarrow> string \<Rightarrow> ('a krg_scheme, int) state" where
  "cluster argv program_name = do {
     r \<leftarrow> krg_check_hotplug;
     if r \<noteq> 0 then do { perror ''Kerrighed is not running''; return EXIT_FAILURE }
     else do {
       krg_hotplug_init;
       case cluster_action argv of
         STATUS \<Rightarrow> do {
           emit (Out ''status: '');
           r \<leftarrow> cluster_status;
           if r = -1 then do { emit (Out ''error\<newline>''); return EXIT_FAILURE }
           else if r = 0 then do { emit (Out ''down\<newline>''); return EXIT_SUCCESS }
           else do { emit (Out (''up on '' @ show_int r @ '' nodes\<newline>'')); return EXIT_SUCCESS } }
       | POWEROFF \<Rightarrow> cluster_stop ''Shutting down cluster... '' krg_cluster_shutdown
       | REBOOT \<Rightarrow> cluster_stop ''Rebooting cluster... '' krg_cluster_reboot
       | _ \<Rightarrow> do { krgadm_help program_name; return EXIT_SUCCESS } } }"

section \<open>Node commands\<close>

definition nodes_mode_options :: long_opts where
  "nodes_mode_options =
     [(''nodes'', required_argument, CHR ''n''), (''count'', required_argument, CHR ''c''),
      (''total'', required_argument, CHR ''t''), (''all'', no_argument, CHR ''a'')]"

definition nodes_short_options :: short_opts where
  "nodes_short_options =
     [(CHR ''n'', required_argument), (CHR ''c'', required_argument),
      (CHR ''t'', required_argument), (CHR ''a'', no_argument)]"

record nodes_args =
  na_mode :: mode_t
  na_set :: "krg_node_set option"
  na_nb :: int

definition nodes_action :: "string list \<Rightarrow> action" where
  "nodes_action argv =
     (case argv of [] \<Rightarrow> STATUS
      | w # _ \<Rightarrow> if w = ''status'' then STATUS
                else if w = ''add'' then ADD
                else if w = ''del'' then DEL else NONE)"

definition msg_exclusive :: "('a krg_scheme, int + nodes_args) state" where
  "msg_exclusive = do {
     out_lines [''Only one of --all, --count, --total or --nodes option is'', ''supported. Aborting.''];
     return (Inl EXIT_FAILURE) }"

text \<open>The body of the option loop: \<open>Inl\<close> is an early return.\<close>

definition nodes_option :: "action \<Rightarrow> string \<Rightarrow> nodes_args \<Rightarrow> char \<times> string option \<Rightarrow>
    ('a krg_scheme, int + nodes_args) state" where
  "nodes_option act program_name a p = (case p of (c, arg) \<Rightarrow>
     let optarg = (case arg of None \<Rightarrow> [] | Some t \<Rightarrow> t) in
     if c = CHR ''n'' then
       (if na_mode a \<noteq> NODES_MODE_UNSET then msg_exclusive
        else do {
          ns \<leftarrow> krg_node_set_create;
          case ns of None \<Rightarrow> return (Inl EXIT_FAILURE)
          | Some ns0 \<Rightarrow> do {
              r \<leftarrow> parse_nodes optarg ns0;
              if fst r = -1 then return (Inl EXIT_FAILURE)
              else return (Inr (a\<lparr>na_mode := NODES_MODE_LIST, na_set := Some (snd r)\<rparr>)) } })
     else if c = CHR ''c'' \<or> c = CHR ''t'' then
       (if na_mode a \<noteq> NODES_MODE_UNSET then msg_exclusive
        else if act = STATUS then do { krgadm_help program_name; return (Inl EXIT_FAILURE) }
        else (case strtol optarg 10 of (x, endptr) \<Rightarrow>
          if endptr = optarg \<or> endptr \<noteq> [] then do {
            set_errno EINVAL;
            perror ''nodes number'';
            return (Inl EXIT_FAILURE) }
          else return (Inr (a\<lparr>na_mode := (if c = CHR ''c'' then NODES_MODE_COUNT else NODES_MODE_TOTAL),
                              na_nb := to_int x\<rparr>))))
     else if c = CHR ''a'' then
       (if na_mode a \<noteq> NODES_MODE_UNSET then msg_exclusive
        else return (Inr (a\<lparr>na_mode := NODES_MODE_ALL\<rparr>)))
     else do { krgadm_help program_name; return (Inl EXIT_FAILURE) })"

fun nodes_options :: "action \<Rightarrow> string \<Rightarrow> nodes_args \<Rightarrow> parsed \<Rightarrow> ('a krg_scheme, int + nodes_args) state" where
  "nodes_options act program_name a [] = return (Inr a)"
| "nodes_options act program_name a (p # ps) = do {
     r \<leftarrow> nodes_option act program_name a p;
     case r of Inl e \<Rightarrow> return (Inl e) | Inr a' \<Rightarrow> nodes_options act program_name a' ps }"

definition exit_of :: "int \<Rightarrow> int" where
  "exit_of r = (if r = -1 then EXIT_FAILURE else EXIT_SUCCESS)"

definition nodes_dispatch :: "nat \<Rightarrow> action \<Rightarrow> string \<Rightarrow> nodes_args \<Rightarrow> ('a krg_scheme, int option) state" where
  "nodes_dispatch fuel act program_name a =
     (if (act = ADD \<or> act = DEL) \<and> na_mode a = NODES_MODE_UNSET then do {
        krgadm_help program_name;
        return (Some EXIT_FAILURE) }
      else case act of
        STATUS \<Rightarrow> do {
          r \<leftarrow> nodes_status (na_set a) (if na_mode a = NODES_MODE_UNSET then NODES_MODE_ALL else na_mode a);
          return (Some (exit_of r)) }
      | ADD \<Rightarrow> do {
          r \<leftarrow> nodes_add fuel (na_set a) (na_nb a) (na_mode a);
          return (map_option exit_of r) }
      | DEL \<Rightarrow> do {
          r \<leftarrow> nodes_remove (na_set a) (na_nb a) (na_mode a);
          return (Some (exit_of r)) }
      | _ \<Rightarrow> do { krgadm_help program_name; return (Some EXIT_SUCCESS) })"

text \<open>\<^verbatim>\<open>getopt_long\<close> skips the first word of the argument vector, which is the action.\<close>

definition nodes :: "nat \<Rightarrow> string list \<Rightarrow> string \<Rightarrow> ('a krg_scheme, int option) state" where
  "nodes fuel argv program_name = do {
     ret \<leftarrow> krg_check_hotplug;
     if ret \<noteq> 0 then do { perror ''Kerrighed is not running''; return (Some EXIT_FAILURE) }
     else do {
       krg_hotplug_init;
       r \<leftarrow> nodes_options (nodes_action argv) program_name
              \<lparr>na_mode = NODES_MODE_UNSET, na_set = None, na_nb = -1\<rparr>
              (fst (getopt_all nodes_short_options nodes_mode_options (tl argv)));
       case r of Inl e \<Rightarrow> return (Some e)
       | Inr a \<Rightarrow> nodes_dispatch fuel (nodes_action argv) program_name a } }"

definition krgadm_main :: "string \<Rightarrow> nat \<Rightarrow> string \<Rightarrow> string list \<Rightarrow> ('a krg_scheme, int option) state" where
  "krgadm_main VERSION fuel program_name args =
     (case args of [] \<Rightarrow> do { krgadm_help program_name; return (Some EXIT_SUCCESS) }
      | w # argv \<Rightarrow>
          if w = ''cluster'' then do { r \<leftarrow> cluster argv program_name; return (Some r) }
          else if w = ''nodes'' then nodes fuel argv program_name
          else if w = ''--version'' then do { krgadm_version VERSION program_name; return (Some EXIT_SUCCESS) }
          else do { krgadm_help program_name; return (Some EXIT_SUCCESS) })"

section \<open>Properties\<close>

lemma ksys_calls_store: "ksys_calls (trace (snd (run_state (store xs i x) s))) = ksys_calls (trace s)"
  by (simp add: store_def)

lemma create_calls:
  assumes "run_state krg_node_set_create s = (x, s')"
  shows "ksys_calls (trace s') = ksys_calls (trace s)"
proof -
  have clear: "ksys_calls (trace (snd (run_state (krg_node_set_clear ns) t))) = ksys_calls (trace t)"
    for ns and t :: "'a krg_scheme"
  proof -
    have "\<exists>v t'. run_state (foldM (\<lambda>xs bcl. store xs bcl 0) (ns_v ns) [0..kerrighed_max_nodes t - 1]) t = (v, t')
        \<and> ksys_calls (trace t') = ksys_calls (trace t)"
      by (rule foldM_inv [where I = "\<lambda>_ _ t'. ksys_calls (trace t') = ksys_calls (trace t)"])
         (auto simp: store_def)
    then show ?thesis by (auto simp: krg_node_set_clear_def)
  qed
  have "s' = snd (run_state krg_node_set_create s)" using assms by simp
  then show ?thesis
    using clear [of _ "after (Malloc (kerrighed_max_nodes s)) (after (Malloc 16) s)"]
    by (simp add: krg_node_set_create_def run_malloc split: prod.splits) (metis snd_conv)
qed

text \<open>Every option either ends the command or leaves it with a mode.\<close>

lemma nodes_option_result:
  assumes "run_state (nodes_option act pn a p) s = (r, s')"
  shows "ksys_calls (trace s') = ksys_calls (trace s) \<and>
    (case r of Inl e \<Rightarrow> e = EXIT_FAILURE
     | Inr a' \<Rightarrow> na_mode a = NODES_MODE_UNSET \<and> na_mode a' \<noteq> NODES_MODE_UNSET)"
proof -
  obtain c arg where p: "p = (c, arg)" by fastforce
  let ?optarg = "case arg of None \<Rightarrow> [] | Some t \<Rightarrow> t"
  show ?thesis
  proof (cases "c = CHR ''n'' \<and> na_mode a = NODES_MODE_UNSET")
    case True
    obtain x s1 where 1: "run_state krg_node_set_create s = (x, s1)" by fastforce
    note c1 = create_calls [OF 1]
    show ?thesis
    proof (cases x)
      case None
      then show ?thesis using assms True 1 c1 by (auto simp: p nodes_option_def Let_def)
    next
      case (Some ns)
      obtain q ns' s2 where 2: "run_state (parse_nodes ?optarg ns) s1 = ((q, ns'), s2)" by (metis surj_pair)
      have "parsed_or_refused s1 ((q, ns'), s2)"
        using parse_any_refuses [of s1 ?optarg ns] 2 by simp
      then have "ksys_calls (trace s2) = ksys_calls (trace s1)" by (simp add: parsed_or_refused_def)
      then show ?thesis using assms True 1 c1 Some 2 by (auto simp: p nodes_option_def Let_def split: if_splits)
    qed
  next
    case False
    then show ?thesis using assms
      by (auto simp: p nodes_option_def Let_def msg_exclusive_def out_lines_def krgadm_help_def
          split: if_splits prod.splits)
  qed
qed

lemma nodes_options_two:
  assumes "2 \<le> length ps"
  shows "\<exists>s'. run_state (nodes_options act pn a ps) s = (Inl EXIT_FAILURE, s') \<and>
    ksys_calls (trace s') = ksys_calls (trace s)"
proof -
  obtain p q ps' where ps: "ps = p # q # ps'" using assms by (cases ps; cases "tl ps") auto
  obtain r s1 where 1: "run_state (nodes_option act pn a p) s = (r, s1)" by fastforce
  note r1 = nodes_option_result [OF 1]
  show ?thesis
  proof (cases r)
    case (Inl e)
    then show ?thesis using r1 1 by (simp add: ps)
  next
    case (Inr a')
    obtain r' s2 where 2: "run_state (nodes_option act pn a' q) s1 = (r', s2)" by fastforce
    note r2 = nodes_option_result [OF 2]
    then obtain e where "r' = Inl e" using r1 Inr by (cases r') auto
    then show ?thesis using r1 r2 1 2 Inr by (simp add: ps)
  qed
qed



end
