(* ===== verification/Callback.thy ===== *)
theory Callback
  imports Libproc
begin

text \<open>
  \<^verbatim>\<open>libs/libkrgcb/libkrgcb.c\<close>: callbacks that an application runs around a checkpoint, a restart or
  the continuation after a checkpoint.  The application side registers callbacks, runs them from a
  signal handler or from a worker thread and reports over a message queue; the tool side finds out
  whether an application has callbacks, signals it and waits for the report.  A callback is a
  function pointer with an argument; calling it is the request \<open>Callback\<close> to the environment.
  Functions that can abort the process (the library was not initialised) return \<open>Inl\<close> of the exit
  status.  Debug output is compiled out by default and left out.
\<close>

unbundle bit_operations_syntax

section \<open>State\<close>

abbreviation (input) SIG_CB_RUN_CHKPT :: int where "SIG_CB_RUN_CHKPT \<equiv> 37"
abbreviation (input) SIG_CB_RUN_RST :: int where "SIG_CB_RUN_RST \<equiv> 38"
abbreviation (input) SIG_CB_RUN_CNT :: int where "SIG_CB_RUN_CNT \<equiv> 39"

definition CR_CB_MAX_CALLBACKS :: nat where "CR_CB_MAX_CALLBACKS = 40"
definition CR_CB_ACTIV_CB :: "64 word" where "CR_CB_ACTIV_CB = push_bit 0 1"

definition CR_CB_CHKPT_APP :: int where "CR_CB_CHKPT_APP = 1"
definition CR_CB_ERR :: int where "CR_CB_ERR = 2"

datatype cr_cb_hook = CR_CB_CHECKPOINT | CR_CB_RESTART | CR_CB_CONTINUE

datatype cr_cb_context = SIGNAL_CONTEXT | THREAD_CONTEXT

record cr_cb_callback =
  cb_func :: int
  cb_arg :: int
  thread_cb :: bool

record cr_cb_info =
  cb_chkpt_count :: int
  cb_rst_count :: int
  cb_cnt_count :: int
  cr_cb_chkpt :: "cr_cb_callback list"
  cr_cb_rst :: "cr_cb_callback list"
  cr_cb_cnt :: "cr_cb_callback list"

text \<open>\<open>None\<close> in \<open>current_hook\<close> is the initial value 0, which is no hook.\<close>

record cb = os +
  cb_info :: "cr_cb_info option"
  thread_running :: bool
  current_hook :: "cr_cb_hook option"
  mutex_locked :: bool

definition cr_cb_abort :: "('a os_scheme, int + 'b) state" where
  "cr_cb_abort = do {
     emit (Out ''Called without first calling cr_init()\<newline>'');
     return (Inl EXIT_FAILURE) }"

fun cb_count_read :: "cr_cb_hook \<Rightarrow> cr_cb_info \<Rightarrow> int" where
  "cb_count_read CR_CB_CHECKPOINT i = cb_chkpt_count i"
| "cb_count_read CR_CB_RESTART i = cb_rst_count i"
| "cb_count_read CR_CB_CONTINUE i = cb_cnt_count i"

fun cb_count_write :: "cr_cb_hook \<Rightarrow> int \<Rightarrow> cr_cb_info \<Rightarrow> cr_cb_info" where
  "cb_count_write CR_CB_CHECKPOINT v i = i\<lparr>cb_chkpt_count := v\<rparr>"
| "cb_count_write CR_CB_RESTART v i = i\<lparr>cb_rst_count := v\<rparr>"
| "cb_count_write CR_CB_CONTINUE v i = i\<lparr>cb_cnt_count := v\<rparr>"

text \<open>The array of a hook, as the switches of the source select it.\<close>

fun cr_cb :: "cr_cb_hook \<Rightarrow> cr_cb_info \<Rightarrow> cr_cb_callback list" where
  "cr_cb CR_CB_CHECKPOINT i = cr_cb_chkpt i"
| "cr_cb CR_CB_RESTART i = cr_cb_rst i"
| "cr_cb CR_CB_CONTINUE i = cr_cb_cnt i"

fun cr_cb_write :: "cr_cb_hook \<Rightarrow> cr_cb_callback list \<Rightarrow> cr_cb_info \<Rightarrow> cr_cb_info" where
  "cr_cb_write CR_CB_CHECKPOINT v i = i\<lparr>cr_cb_chkpt := v\<rparr>"
| "cr_cb_write CR_CB_RESTART v i = i\<lparr>cr_cb_rst := v\<rparr>"
| "cr_cb_write CR_CB_CONTINUE v i = i\<lparr>cr_cb_cnt := v\<rparr>"

section \<open>Messages\<close>

definition send_message :: "int \<Rightarrow> ('a os_scheme, int) state" where
  "send_message msg = do {
     key \<leftarrow> syscall Getpid;
     q \<leftarrow> syscall (Msgget (resp_ret key) 420);
     if resp_ret q < 0 then do { perror ''libkrgcb.c::send_message::msgget''; return (-1) }
     else do {
       r \<leftarrow> syscall (Msgsnd (resp_ret q) msg);
       if resp_ret r \<noteq> 0 then do { perror ''libkrgcb.c::send_message::msgsnd''; return (-1) }
       else return 0 } }"

section \<open>The tool side\<close>

definition cr_detect_callbacks :: "int \<Rightarrow> bool \<Rightarrow> ('a os_scheme, int) state" where
  "cr_detect_callbacks pid from_appid = do {
     r \<leftarrow> (if from_appid then application_get_userdata_from_appid pid 0
           else application_get_userdata_from_pid (to_int pid) 0);
     return (if fst r \<noteq> 0 then fst r
             else if snd r AND CR_CB_ACTIV_CB = 0 then -1 else fst r) }"

definition cr_execute_chkpt_callbacks :: "int \<Rightarrow> bool \<Rightarrow> ('a os_scheme, int) state" where
  "cr_execute_chkpt_callbacks pid from_appid = do {
     d \<leftarrow> cr_detect_callbacks pid from_appid;
     if d \<noteq> 0 then return 0
     else do {
       q \<leftarrow> syscall (Msgget (to_int pid) (420 + 512));
       if resp_ret q < 0 then return (-1)
       else do {
         k \<leftarrow> syscall (Kill (to_int pid) SIG_CB_RUN_CHKPT);
         if resp_ret k \<noteq> 0 then return (resp_ret k)
         else do {
           m \<leftarrow> syscall (Msgrcv (resp_ret q));
           if resp_ret m < 0 then return (-1)
           else do {
             c \<leftarrow> syscall (Msgctl_rmid (resp_ret q));
             if resp_ret c \<noteq> 0 then return (resp_ret c)
             else return (if (case resp_data m of DInt t \<Rightarrow> t | _ \<Rightarrow> 0) = CR_CB_ERR then -1 else 0) } } } } }"

definition cr_execute_restart_callbacks :: "int \<Rightarrow> ('a os_scheme, int) state" where
  "cr_execute_restart_callbacks pid = do {
     d \<leftarrow> cr_detect_callbacks pid False;
     if d \<noteq> 0 then return 0
     else do { k \<leftarrow> syscall (Kill (to_int pid) SIG_CB_RUN_RST); return (resp_ret k) } }"

definition cr_execute_continue_callbacks :: "int \<Rightarrow> bool \<Rightarrow> ('a os_scheme, int) state" where
  "cr_execute_continue_callbacks pid from_appid = do {
     d \<leftarrow> cr_detect_callbacks pid from_appid;
     if d \<noteq> 0 then return 0
     else do { k \<leftarrow> syscall (Kill (to_int pid) SIG_CB_RUN_CNT); return (resp_ret k) } }"

section \<open>Running callbacks\<close>

definition in_context :: "cr_cb_context \<Rightarrow> cr_cb_callback \<Rightarrow> bool" where
  "in_context context cb \<longleftrightarrow> cb_func cb \<noteq> 0 \<and> thread_cb cb = (context = THREAD_CONTEXT)"

fun run_from :: "cr_cb_context \<Rightarrow> cr_cb_callback list \<Rightarrow> ('a os_scheme, int) state" where
  "run_from context [] = return 0"
| "run_from context (cb # cbs) =
     (if in_context context cb then do {
        r \<leftarrow> syscall (Callback (cb_func cb) (cb_arg cb));
        if resp_ret r \<noteq> 0 then return (resp_ret r) else run_from context cbs }
      else run_from context cbs)"

text \<open>The loop reads the entries below the count; a count beyond the array is a fault.\<close>

definition run_callbacks :: "cr_cb_context \<Rightarrow> ('a cb_scheme, int + int) state" where
  "run_callbacks context = do {
     inf \<leftarrow> gets cb_info;
     case inf of None \<Rightarrow> cr_cb_abort
     | Some i \<Rightarrow> do {
         h \<leftarrow> gets current_hook;
         case h of None \<Rightarrow> return (Inr (-1))
         | Some hook \<Rightarrow> do {
             (if int (length (cr_cb hook i)) < cb_count_read hook i then emit Fault else return ());
             r \<leftarrow> run_from context (take (nat (cb_count_read hook i)) (cr_cb hook i));
             return (Inr r) } } }"

definition hook_of_signal :: "int \<Rightarrow> cr_cb_hook option" where
  "hook_of_signal signum =
     (if signum = SIG_CB_RUN_CHKPT then Some CR_CB_CHECKPOINT
      else if signum = SIG_CB_RUN_RST then Some CR_CB_RESTART
      else if signum = SIG_CB_RUN_CNT then Some CR_CB_CONTINUE else None)"

text \<open>
  The handler in three parts (select the hook; run and report; wake the worker), so that other
  threads can be interleaved between them.
\<close>

definition handler_report :: "int \<Rightarrow> ('a cb_scheme, unit) state" where
  "handler_report r = do {
     h \<leftarrow> gets current_hook;
     t \<leftarrow> gets thread_running;
     if h = Some CR_CB_CHECKPOINT then
       (if r \<noteq> 0 then do { send_message CR_CB_ERR; return () }
        else if \<not> t then do { send_message CR_CB_CHKPT_APP; return () }
        else return ())
     else return () }"

definition handler_work :: "('a cb_scheme, int + unit) state" where
  "handler_work = do {
     r \<leftarrow> run_callbacks SIGNAL_CONTEXT;
     case r of Inl e \<Rightarrow> return (Inl e)
     | Inr x \<Rightarrow> do { handler_report x; return (Inr ()) } }"

definition handler_wake :: "('a cb_scheme, unit) state" where
  "handler_wake = do {
     t \<leftarrow> gets thread_running;
     if t then modify (\<lambda>s. s\<lparr>mutex_locked := False\<rparr>) else return () }"

definition handle_signal :: "int \<Rightarrow> ('a cb_scheme, int + unit) state" where
  "handle_signal signum = do {
     inf \<leftarrow> gets cb_info;
     if inf = None then cr_cb_abort
     else case hook_of_signal signum of
       None \<Rightarrow> return (Inr ())
     | Some hook \<Rightarrow> do {
         modify (\<lambda>s. s\<lparr>current_hook := Some hook\<rparr>);
         w \<leftarrow> handler_work;
         case w of Inl e \<Rightarrow> return (Inl e)
         | Inr _ \<Rightarrow> do { handler_wake; return (Inr ()) } } }"

text \<open>One round of the worker after it acquired the mutex.\<close>

definition worker_work :: "('a cb_scheme, int + unit) state" where
  "worker_work = do {
     r \<leftarrow> run_callbacks THREAD_CONTEXT;
     case r of Inl e \<Rightarrow> return (Inl e)
     | Inr x \<Rightarrow> do {
         h \<leftarrow> gets current_hook;
         (if h = Some CR_CB_CHECKPOINT
          then do { send_message (if x \<noteq> 0 then CR_CB_ERR else CR_CB_CHKPT_APP); return () }
          else return ());
         return (Inr ()) } }"

section \<open>Initialisation and registration\<close>

definition free_info_memory :: "('a cb_scheme, unit) state" where
  "free_info_memory = do {
     inf \<leftarrow> gets cb_info;
     (if inf \<noteq> None then do { free; modify (\<lambda>s. s\<lparr>cb_info := None\<rparr>) } else return ());
     modify (\<lambda>s. s\<lparr>thread_running := False\<rparr>) }"

definition initialize_cb_thread :: "('a cb_scheme, int) state" where
  "initialize_cb_thread = do {
     modify (\<lambda>s. s\<lparr>mutex_locked := True\<rparr>);
     modify (\<lambda>s. s\<lparr>thread_running := True\<rparr>);
     r \<leftarrow> syscall Pthread_create;
     if resp_ret r \<noteq> 0 then do { free_info_memory; return (resp_ret r) }
     else return (resp_ret r) }"

definition initialize_signal_handlers :: "('a os_scheme, int) state" where
  "initialize_signal_handlers = do {
     r \<leftarrow> syscall (Sigaction SIG_CB_RUN_CHKPT);
     if resp_ret r \<noteq> 0 then return (resp_ret r)
     else do {
       r \<leftarrow> syscall (Sigaction SIG_CB_RUN_RST);
       if resp_ret r \<noteq> 0 then return (resp_ret r)
       else do { r \<leftarrow> syscall (Sigaction SIG_CB_RUN_CNT); return (resp_ret r) } } }"

definition empty_info :: cr_cb_info where
  "empty_info =
     (let none = replicate CR_CB_MAX_CALLBACKS \<lparr>cb_func = 0, cb_arg = 0, thread_cb = False\<rparr>
      in \<lparr>cb_chkpt_count = 0, cb_rst_count = 0, cb_cnt_count = 0,
          cr_cb_chkpt = none, cr_cb_rst = none, cr_cb_cnt = none\<rparr>)"

definition initialize_cb_info :: "('a cb_scheme, int) state" where
  "initialize_cb_info = do {
     blk \<leftarrow> malloc (16 + 3 * 40 * 24);
     if blk = None then do {
       modify (\<lambda>s. s\<lparr>cb_info := None\<rparr>);
       set_errno ENOMEM;
       return (-1) }
     else do { modify (\<lambda>s. s\<lparr>cb_info := Some empty_info\<rparr>); return 0 } }"

definition declare_cb :: "('a os_scheme, int) state" where
  "declare_cb = application_set_userdata (0 OR CR_CB_ACTIV_CB)"

definition cr_callback_init :: "('a cb_scheme, int) state" where
  "cr_callback_init = do {
     r1 \<leftarrow> initialize_cb_info;
     r \<leftarrow> (if r1 \<noteq> 0 then return r1
           else do {
             r2 \<leftarrow> initialize_signal_handlers;
             if r2 \<noteq> 0 then return r2 else declare_cb });
     (if r \<noteq> 0 then free_info_memory else return ());
     return r }"

definition cr_callback_exit :: "('a cb_scheme, int + unit) state" where
  "cr_callback_exit = do {
     inf \<leftarrow> gets cb_info;
     if inf \<noteq> None then do { free_info_memory; return (Inr ()) } else cr_cb_abort }"

definition store_callback :: "cr_cb_hook \<Rightarrow> cr_cb_callback \<Rightarrow> cr_cb_info \<Rightarrow> cr_cb_info option" where
  "store_callback hook c i =
     (let idx = cb_count_read hook i in
      if idx < int CR_CB_MAX_CALLBACKS
      then Some (cb_count_write hook (idx + 1) (cr_cb_write hook ((cr_cb hook i)[nat idx := c]) i))
      else None)"

definition register_callback :: "cr_cb_hook \<Rightarrow> int \<Rightarrow> int \<Rightarrow> cr_cb_context \<Rightarrow> ('a cb_scheme, int + int) state"
  where
  "register_callback hook func arg context = do {
     inf \<leftarrow> gets cb_info;
     if inf = None then cr_cb_abort
     else do {
       t \<leftarrow> gets thread_running;
       r \<leftarrow> (if context = THREAD_CONTEXT \<and> \<not> t then initialize_cb_thread else return 0);
       if r \<noteq> 0 then return (Inr r)
       else do {
         inf \<leftarrow> gets cb_info;
         case inf of None \<Rightarrow> do { emit Fault; return (Inr (-1)) }
         | Some i \<Rightarrow>
             (case store_callback hook \<lparr>cb_func = func, cb_arg = arg, thread_cb = (context \<noteq> SIGNAL_CONTEXT)\<rparr> i of
                Some i' \<Rightarrow> do { modify (\<lambda>s. s\<lparr>cb_info := Some i'\<rparr>); return (Inr 0) }
              | None \<Rightarrow> return (Inr (-1))) } } }"

definition cr_register_chkpt_callback :: "int \<Rightarrow> int \<Rightarrow> ('a cb_scheme, int + int) state" where
  "cr_register_chkpt_callback func arg = register_callback CR_CB_CHECKPOINT func arg SIGNAL_CONTEXT"

definition cr_register_restart_callback :: "int \<Rightarrow> int \<Rightarrow> ('a cb_scheme, int + int) state" where
  "cr_register_restart_callback func arg = register_callback CR_CB_RESTART func arg SIGNAL_CONTEXT"

definition cr_register_continue_callback :: "int \<Rightarrow> int \<Rightarrow> ('a cb_scheme, int + int) state" where
  "cr_register_continue_callback func arg = register_callback CR_CB_CONTINUE func arg SIGNAL_CONTEXT"

definition cr_register_chkpt_thread_callback :: "int \<Rightarrow> int \<Rightarrow> ('a cb_scheme, int + int) state" where
  "cr_register_chkpt_thread_callback func arg = register_callback CR_CB_CHECKPOINT func arg THREAD_CONTEXT"

definition cr_register_restart_thread_callback :: "int \<Rightarrow> int \<Rightarrow> ('a cb_scheme, int + int) state" where
  "cr_register_restart_thread_callback func arg = register_callback CR_CB_RESTART func arg THREAD_CONTEXT"

definition cr_register_continue_thread_callback :: "int \<Rightarrow> int \<Rightarrow> ('a cb_scheme, int + int) state" where
  "cr_register_continue_thread_callback func arg = register_callback CR_CB_CONTINUE func arg THREAD_CONTEXT"

section \<open>The threads together\<close>

text \<open>
  The application as a transition system.  The signal handler (signals are masked while it runs)
  and the worker thread proceed in steps; a step of one may come between any two of the other.
  \<open>handled\<close> counts the handled signals that woke the worker and \<open>rounds\<close> the rounds the worker
  began; both are history variables.
\<close>

datatype handler_pc = H_idle | H_run | H_wake

datatype worker_pc = W_check | W_lock | W_run | W_end

record machine =
  proc :: cb
  hpc :: handler_pc
  wpc :: worker_pc
  handled :: nat
  rounds :: nat

inductive cb_step :: "machine \<Rightarrow> machine \<Rightarrow> bool" where
  signal: "hpc m = H_idle \<Longrightarrow> hook_of_signal sig = Some h \<Longrightarrow> cb_info (proc m) \<noteq> None \<Longrightarrow>
    cb_step m (m\<lparr>proc := (proc m)\<lparr>current_hook := Some h\<rparr>, hpc := H_run\<rparr>)"
| handler: "hpc m = H_run \<Longrightarrow> run_state handler_work (proc m) = (Inr (), p) \<Longrightarrow>
    cb_step m (m\<lparr>proc := p, hpc := H_wake\<rparr>)"
| wake: "hpc m = H_wake \<Longrightarrow> run_state handler_wake (proc m) = ((), p) \<Longrightarrow>
    cb_step m (m\<lparr>proc := p, hpc := H_idle, handled := Suc (handled m)\<rparr>)"
| check: "wpc m = W_check \<Longrightarrow>
    cb_step m (m\<lparr>wpc := if thread_running (proc m) then W_lock else W_end\<rparr>)"
| lock: "wpc m = W_lock \<Longrightarrow> \<not> mutex_locked (proc m) \<Longrightarrow>
    cb_step m (m\<lparr>proc := (proc m)\<lparr>mutex_locked := True\<rparr>, wpc := W_run, rounds := Suc (rounds m)\<rparr>)"
| work: "wpc m = W_run \<Longrightarrow> run_state worker_work (proc m) = (Inr (), p) \<Longrightarrow>
    cb_step m (m\<lparr>proc := p, wpc := W_check\<rparr>)"

inductive_cases cb_stepE: "cb_step m m'"

section \<open>The registry of callbacks\<close>

text \<open>
  The contract of the registry: a bounded list of callbacks for each hook, to which an addition
  appends unless the list is full.
\<close>

locale registry =
  fixes reg :: "'i \<Rightarrow> 'h \<Rightarrow> 'c list"
    and add :: "'h \<Rightarrow> 'c \<Rightarrow> 'i \<Rightarrow> 'i option"
    and ok :: "'i \<Rightarrow> bool"
    and bound :: nat
  assumes add_some: "ok i \<Longrightarrow> length (reg i h) < bound \<Longrightarrow>
      \<exists>i'. add h c i = Some i' \<and> ok i' \<and> reg i' h = reg i h @ [c] \<and> (\<forall>h'. h' \<noteq> h \<longrightarrow> reg i' h' = reg i h')"
    and add_none: "ok i \<Longrightarrow> bound \<le> length (reg i h) \<Longrightarrow> add h c i = None"
    and reg_bound: "ok i \<Longrightarrow> length (reg i h) \<le> bound"
begin

text \<open>Adding what can be added, in order.\<close>

definition add_all :: "('h \<times> 'c) list \<Rightarrow> 'i \<Rightarrow> 'i" where
  "add_all xs i = foldl (\<lambda>i hc. case add (fst hc) (snd hc) i of None \<Rightarrow> i | Some i' \<Rightarrow> i') i xs"

lemma add_all_snoc:
  "add_all (xs @ [(h, c)]) i = (case add h c (add_all xs i) of None \<Rightarrow> add_all xs i | Some i' \<Rightarrow> i')"
  by (simp add: add_all_def split: option.splits)

lemma add_all_reg:
  "ok i \<Longrightarrow> ok (add_all xs i) \<and>
   reg (add_all xs i) h = take bound (reg i h @ map snd (filter (\<lambda>hc. fst hc = h) xs))"
proof (induction xs arbitrary: i)
  case Nil
  then show ?case using reg_bound [of i h] by (simp add: add_all_def)
next
  case (Cons x xs)
  obtain h0 c where x: "x = (h0, c)" by fastforce
  show ?case
  proof (cases "length (reg i h0) < bound")
    case True
    then obtain i' where i': "add h0 c i = Some i'" "ok i'" "reg i' h0 = reg i h0 @ [c]"
        "\<forall>h'. h' \<noteq> h0 \<longrightarrow> reg i' h' = reg i h'"
      using add_some [OF Cons.prems] by blast
    then have "add_all (x # xs) i = add_all xs i'" by (simp add: add_all_def x)
    moreover have "reg i' h @ map snd (filter (\<lambda>hc. fst hc = h) xs) =
        reg i h @ map snd (filter (\<lambda>hc. fst hc = h) (x # xs))"
      using i'(3,4) by (cases "h0 = h") (simp_all add: x)
    ultimately show ?thesis using Cons.IH [OF i'(2)] by metis
  next
    case False
    then have "add_all (x # xs) i = add_all xs i"
      using add_none [OF Cons.prems] by (simp add: add_all_def x)
    then show ?thesis using Cons.IH [OF Cons.prems] False by (auto simp: x)
  qed
qed

end

definition registered :: "cr_cb_info \<Rightarrow> cr_cb_hook \<Rightarrow> cr_cb_callback list" where
  "registered i h = take (nat (cb_count_read h i)) (cr_cb h i)"

definition info_ok :: "cr_cb_info \<Rightarrow> bool" where
  "info_ok i \<longleftrightarrow> (\<forall>h. length (cr_cb h i) = CR_CB_MAX_CALLBACKS \<and> 0 \<le> cb_count_read h i \<and>
     cb_count_read h i \<le> int CR_CB_MAX_CALLBACKS)"

lemma cb_write_read [simp]:
  "cb_count_read h (cb_count_write h' v i) = (if h = h' then v else cb_count_read h i)"
  "cb_count_read h (cr_cb_write h' w i) = cb_count_read h i"
  "cr_cb h (cb_count_write h' v i) = cr_cb h i"
  "cr_cb h (cr_cb_write h' w i) = (if h = h' then w else cr_cb h i)"
  by (cases h; cases h'; simp)+

lemma length_registered: "info_ok i \<Longrightarrow> int (length (registered i h)) = cb_count_read h i"
  by (auto simp: info_ok_def registered_def min_def dest: spec [of _ h])

interpretation callbacks: registry registered store_callback info_ok CR_CB_MAX_CALLBACKS
proof unfold_locales
  fix i h c assume ok: "info_ok i" and room: "length (registered i h) < CR_CB_MAX_CALLBACKS"
  let ?n = "cb_count_read h i"
  have n: "0 \<le> ?n" "?n < int CR_CB_MAX_CALLBACKS" "length (cr_cb h i) = CR_CB_MAX_CALLBACKS"
    using ok room length_registered [OF ok, of h] by (auto simp: info_ok_def)
  let ?i = "cb_count_write h (?n + 1) (cr_cb_write h ((cr_cb h i)[nat ?n := c]) i)"
  have "store_callback h c i = Some ?i" using n(2) by (simp add: store_callback_def Let_def)
  moreover have "info_ok ?i" using ok n by (auto simp: info_ok_def)
  moreover have "registered ?i h = registered i h @ [c]"
    using n by (simp add: registered_def nat_add_distrib take_Suc_conv_app_nth)
  moreover have "registered ?i h' = registered i h'" if "h' \<noteq> h" for h' using that by (simp add: registered_def)
  ultimately show "\<exists>i'. store_callback h c i = Some i' \<and> info_ok i' \<and> registered i' h = registered i h @ [c] \<and>
      (\<forall>h'. h' \<noteq> h \<longrightarrow> registered i' h' = registered i h')" by blast
next
  fix i h and c :: cr_cb_callback assume "info_ok i" and "CR_CB_MAX_CALLBACKS \<le> length (registered i h)"
  then show "store_callback h c i = None" using length_registered [of i h] by (simp add: store_callback_def)
next
  fix i h assume "info_ok i"
  then show "length (registered i h) \<le> CR_CB_MAX_CALLBACKS"
    using length_registered [of i h] by (simp add: info_ok_def) (metis of_nat_le_iff)
qed

lemma empty_info_ok: "info_ok empty_info \<and> registered empty_info h = []"
proof -
  have "length (cr_cb h' empty_info) = CR_CB_MAX_CALLBACKS \<and> cb_count_read h' empty_info = 0" for h'
    by (cases h') (simp_all add: empty_info_def Let_def)
  then show ?thesis by (simp add: info_ok_def registered_def)
qed

section \<open>Registration\<close>

text \<open>The environment can start threads.\<close>

definition can_thread :: "'a os_scheme \<Rightarrow> bool" where
  "can_thread s \<longleftrightarrow> (\<forall>tr. resp_ret (answers s tr Pthread_create) = 0)"

definition callback_of :: "int \<times> int \<times> cr_cb_context \<Rightarrow> cr_cb_callback" where
  "callback_of x = (case x of (func, arg, ctx) \<Rightarrow>
     \<lparr>cb_func = func, cb_arg = arg, thread_cb = (ctx \<noteq> SIGNAL_CONTEXT)\<rparr>)"

lemma run_register:
  assumes "cb_info s = Some i" and "info_ok i" and "can_thread s"
  shows "\<exists>s'. run_state (register_callback h f a ctx) s =
      (Inr (if length (registered i h) < CR_CB_MAX_CALLBACKS then 0 else -1), s') \<and> can_thread s' \<and>
    cb_info s' = Some (case store_callback h (callback_of (f, a, ctx)) i of None \<Rightarrow> i | Some i' \<Rightarrow> i') \<and>
    (thread_running s' \<longleftrightarrow> thread_running s \<or> ctx = THREAD_CONTEXT)"
proof -
  have t: "\<exists>s1. run_state (if ctx = THREAD_CONTEXT \<and> \<not> thread_running s then initialize_cb_thread else return 0) s
      = (0, s1) \<and> cb_info s1 = Some i \<and> can_thread s1 \<and> (thread_running s1 \<longleftrightarrow> thread_running s \<or> ctx = THREAD_CONTEXT)"
    using assms(1,3) by (auto simp: initialize_cb_thread_def can_thread_def after_def Let_def)
  then obtain s1 where s1: "run_state (if ctx = THREAD_CONTEXT \<and> \<not> thread_running s then initialize_cb_thread
      else return 0) s = (0, s1)" "cb_info s1 = Some i" "can_thread s1"
      "thread_running s1 \<longleftrightarrow> thread_running s \<or> ctx = THREAD_CONTEXT" by blast
  have st: "(store_callback h c i = None) = (\<not> length (registered i h) < CR_CB_MAX_CALLBACKS)" for c
    using callbacks.add_some [OF assms(2), of h c] callbacks.add_none [OF assms(2), of h c] by fastforce
  let ?c = "callback_of (f, a, ctx)"
  have c: "\<lparr>cb_func = f, cb_arg = a, thread_cb = (ctx \<noteq> SIGNAL_CONTEXT)\<rparr> = ?c" by (simp add: callback_of_def)
  show ?thesis
  proof (cases "store_callback h ?c i")
    case None
    then have "\<not> length (registered i h) < CR_CB_MAX_CALLBACKS" using st by simp
    then show ?thesis using assms(1) s1 None by (simp add: register_callback_def c del: run_if)
  next
    case (Some i')
    then have "length (registered i h) < CR_CB_MAX_CALLBACKS" using st [of ?c] by simp
    then show ?thesis
      using assms(1) s1 Some by (simp add: register_callback_def c can_thread_def del: run_if)
  qed
qed

text \<open>The calls of callbacks in a history, with their results, and the messages sent.\<close>

fun cb_calls :: "event list \<Rightarrow> (int \<times> int \<times> int) list" where
  "cb_calls [] = []"
| "cb_calls (Sys (Callback f a) r # es) = (f, a, resp_ret r) # cb_calls es"
| "cb_calls (e # es) = cb_calls es"

fun messages :: "event list \<Rightarrow> int list" where
  "messages [] = []"
| "messages (Sys (Msgsnd q m) r # es) = m # messages es"
| "messages (e # es) = messages es"

lemma cb_calls_append [simp]: "cb_calls (es @ fs) = cb_calls es @ cb_calls fs"
  by (induction es rule: cb_calls.induct) simp_all

lemma messages_append [simp]: "messages (es @ fs) = messages es @ messages fs"
  by (induction es rule: messages.induct) simp_all

text \<open>
  The results \<open>rs\<close> of running the callbacks \<open>sel\<close> one after the other, with the overall result
  \<open>r\<close>: all of them ran and succeeded, or the last one that ran is the first that failed.
\<close>

definition ran :: "cr_cb_callback list \<Rightarrow> int list \<Rightarrow> int \<Rightarrow> bool" where
  "ran sel rs r \<longleftrightarrow> (if r = 0 then length rs = length sel \<and> (\<forall>x \<in> set rs. x = 0)
     else length rs \<le> length sel \<and> (\<exists>n. rs = replicate n 0 @ [r]))"

definition calls_of :: "cr_cb_callback list \<Rightarrow> int list \<Rightarrow> (int \<times> int \<times> int) list" where
  "calls_of sel rs = map (\<lambda>(c, r). (cb_func c, cb_arg c, r)) (zip sel rs)"

lemma run_run_from:
  "\<exists>r rs s'. run_state (run_from ctx cbs) s = (r, s') \<and> frame s s' \<and> ran (filter (in_context ctx) cbs) rs r \<and>
    cb_calls (trace s') = cb_calls (trace s) @ calls_of (filter (in_context ctx) cbs) rs \<and>
    messages (trace s') = messages (trace s) \<and> faults (trace s') = faults (trace s)"
proof (induction cbs arbitrary: s)
  case Nil
  then show ?case by (simp add: ran_def calls_of_def)
next
  case (Cons c cbs)
  show ?case
  proof (cases "in_context ctx c")
    case False
    then show ?thesis using Cons by simp
  next
    case True
    let ?x = "resp_ret (answers s (trace s) (Callback (cb_func c) (cb_arg c)))"
    let ?s = "after (Callback (cb_func c) (cb_arg c)) s"
    have ev: "cb_calls (trace ?s) = cb_calls (trace s) @ [(cb_func c, cb_arg c, ?x)]"
      "messages (trace ?s) = messages (trace s)" "faults (trace ?s) = faults (trace s)"
      by (simp_all add: faults_def)
    show ?thesis
    proof (cases "?x = 0")
      case False
      have "\<exists>n. [?x] = replicate n 0 @ [?x]" by (rule exI [of _ 0]) simp
      then have "ran (filter (in_context ctx) (c # cbs)) [?x] ?x" using False True by (simp add: ran_def)
      then show ?thesis
        using False True ev by (intro exI [of _ ?x] exI [of _ "[?x]"] exI [of _ ?s]) (simp add: calls_of_def)
    next
      case z: True
      obtain r rs s' where IH: "run_state (run_from ctx cbs) ?s = (r, s')" "frame ?s s'"
          "ran (filter (in_context ctx) cbs) rs r"
          "cb_calls (trace s') = cb_calls (trace ?s) @ calls_of (filter (in_context ctx) cbs) rs"
          "messages (trace s') = messages (trace ?s)" "faults (trace s') = faults (trace ?s)"
        using Cons.IH by blast
      have "ran (filter (in_context ctx) (c # cbs)) (0 # rs) r"
        using IH(3) True by (auto simp: ran_def split: if_splits) (metis replicate_Suc append_Cons)
      moreover have "frame s s'" using IH(2) frame_trans [OF frame_after] by blast
      ultimately show ?thesis
        using True z IH ev
        by (intro exI [of _ r] exI [of _ "0 # rs"] exI [of _ s']) (simp add: calls_of_def)
    qed
  qed
qed

lemma frame_cb:
  assumes "frame s s'"
  shows "cb_info s' = cb_info s" and "current_hook s' = current_hook s" and "thread_running s' = thread_running s"
    and "mutex_locked s' = mutex_locked s"
  using assms unfolding frame_def by (cases s; cases s'; simp)+

lemma run_run_callbacks:
  assumes "cb_info s = Some i" and "info_ok i" and "current_hook s = Some h"
  shows "\<exists>r rs s'. run_state (run_callbacks ctx) s = (Inr r, s') \<and> frame s s' \<and>
    ran (filter (in_context ctx) (registered i h)) rs r \<and>
    cb_calls (trace s') = cb_calls (trace s) @ calls_of (filter (in_context ctx) (registered i h)) rs \<and>
    messages (trace s') = messages (trace s) \<and> faults (trace s') = faults (trace s)"
proof -
  have n: "\<not> int (length (cr_cb h i)) < cb_count_read h i" using assms(2) by (auto simp: info_ok_def not_less)
  have "run_state (run_callbacks ctx) s =
      (case run_state (run_from ctx (registered i h)) s of (r, s') \<Rightarrow> (Inr r, s'))"
    using assms(1,3) n by (simp add: run_callbacks_def registered_def)
  then show ?thesis using run_run_from [of ctx "registered i h" s] by auto
qed

text \<open>The queue of the process can be opened and written.\<close>

definition can_send :: "'a os_scheme \<Rightarrow> bool" where
  "can_send s \<longleftrightarrow> (\<forall>tr k f. 0 \<le> resp_ret (answers s tr (Msgget k f)))"

lemma can_send_frame: "frame s s' \<Longrightarrow> can_send s' = can_send s"
  by (simp add: can_send_def frame_answers)

lemma framed_send [framed_intros]: "framed (send_message m)"
  unfolding send_message_def by (intro framed_intros)

lemma run_send:
  assumes "can_send s"
  shows "\<exists>r s'. run_state (send_message m) s = (r, s') \<and> frame s s' \<and>
    messages (trace s') = messages (trace s) @ [m] \<and> cb_calls (trace s') = cb_calls (trace s)"
proof -
  obtain r s' where r: "run_state (send_message m) s = (r, s')" by fastforce
  have "\<not> resp_ret (answers s (trace s @ [Sys Getpid (answers s (trace s) Getpid)])
      (Msgget (resp_ret (answers s (trace s) Getpid)) 420)) < 0"
    using assms by (simp add: can_send_def not_less)
  then have "messages (trace s') = messages (trace s) @ [m] \<and> cb_calls (trace s') = cb_calls (trace s)"
    using r by (auto simp: send_message_def split: if_splits)
  then show ?thesis using r framedD [OF framed_send r] by blast
qed

section \<open>Properties\<close>

type_synonym registration = "cr_cb_hook \<times> int \<times> int \<times> cr_cb_context"

definition register_all :: "registration list \<Rightarrow> ('a cb_scheme, int + int) state" where
  "register_all regs = foldM (\<lambda>_ (h, f, a, ctx). register_callback h f a ctx) (Inr 0) regs"

definition entry :: "registration \<Rightarrow> cr_cb_hook \<times> cr_cb_callback" where
  "entry x = (fst x, callback_of (snd x))"

lemma run_register_all:
  fixes s :: "'a cb_scheme"
  assumes "cb_info s = Some i" and "info_ok i" and "can_thread s"
  shows "\<exists>x s'. run_state (register_all regs) s = (x, s') \<and>
    cb_info s' = Some (callbacks.add_all (map entry regs) i) \<and> can_thread s' \<and>
    (thread_running s' \<longleftrightarrow> thread_running s \<or> (\<exists>h f a. (h, f, a, THREAD_CONTEXT) \<in> set regs))"
proof -
  let ?I = "\<lambda>done x s'. cb_info s' = Some (callbacks.add_all (map entry done) i) \<and> can_thread s' \<and>
    (thread_running s' \<longleftrightarrow> thread_running s \<or> (\<exists>h f a. (h, f, a, THREAD_CONTEXT) \<in> set done))"
  have "\<exists>x s'. run_state (foldM (\<lambda>_ (h, f, a, ctx). register_callback h f a ctx) (Inr 0) regs) s = (x, s') \<and>
      ?I regs x s'"
  proof (rule foldM_inv)
    fix ys zs :: "registration list" and reg :: registration and acc :: "int + int" and s1 :: "'a cb_scheme"
    assume I: "?I ys acc s1"
    obtain h f a ctx where reg: "reg = (h, f, a, ctx)" by (metis surj_pair)
    let ?i = "callbacks.add_all (map entry ys) i"
    have ok: "info_ok ?i" using callbacks.add_all_reg [OF assms(2)] by blast
    obtain x s' where r: "run_state (register_callback h f a ctx) s1 = (x, s')" "can_thread s'"
        "cb_info s' = Some (case store_callback h (callback_of (f, a, ctx)) ?i of None \<Rightarrow> ?i | Some i' \<Rightarrow> i')"
        "thread_running s' \<longleftrightarrow> thread_running s1 \<or> ctx = THREAD_CONTEXT"
      using run_register [of s1 ?i h f a ctx] I ok by blast
    have "callbacks.add_all (map entry (ys @ [reg])) i =
        (case store_callback h (callback_of (f, a, ctx)) ?i of None \<Rightarrow> ?i | Some i' \<Rightarrow> i')"
      using callbacks.add_all_snoc [of "map entry ys" h "callback_of (f, a, ctx)" i] by (simp add: entry_def reg)
    then have "?I (ys @ [reg]) x s'" using I r by (auto simp: reg)
    then show "\<exists>acc' s'. run_state ((\<lambda>_ (h, f, a, ctx). register_callback h f a ctx) acc reg) s1 = (acc', s') \<and>
        ?I (ys @ [reg]) acc' s'" using r(1) by (auto simp: reg)
  qed (use assms in \<open>auto simp: callbacks.add_all_def\<close>)
  then show ?thesis by (simp add: register_all_def)
qed

text \<open>
  C21.  After any sequence of registrations the callbacks of a hook are the ones it had followed by
  the newly registered ones in the order of registration, cut off at 40; hooks do not disturb each
  other, and the worker thread runs as soon as one callback was registered for it.
\<close>

theorem register_all_appends:
  assumes "cb_info s = Some i" and "info_ok i" and "can_thread s"
  shows "\<exists>x s' i'. run_state (register_all regs) s = (x, s') \<and> cb_info s' = Some i' \<and> info_ok i' \<and>
    (\<forall>h. registered i' h = take CR_CB_MAX_CALLBACKS
       (registered i h @ map (\<lambda>r. callback_of (snd r)) (filter (\<lambda>r. fst r = h) regs))) \<and>
    (thread_running s' \<longleftrightarrow> thread_running s \<or> (\<exists>h f a. (h, f, a, THREAD_CONTEXT) \<in> set regs))"
proof -
  have "map snd (filter (\<lambda>hc. fst hc = h) (map entry regs)) =
      map (\<lambda>r. callback_of (snd r)) (filter (\<lambda>r. fst r = h) regs)" for h
    by (induction regs) (auto simp: entry_def)
  then show ?thesis
    using run_register_all [OF assms, of regs] callbacks.add_all_reg [OF assms(2), of "map entry regs"] by metis
qed

definition cb_start :: cb where
  "cb_start = \<lparr>answers = (\<lambda>tr q. Resp 0 None NoData), trace = [], errno = 0, cb_info = Some empty_info,
     thread_running = False, current_hook = None, mutex_locked = False\<rparr>"

lemma cb_start_ok:
  "cb_info cb_start = Some empty_info" "info_ok empty_info" "can_thread cb_start" "can_send cb_start"
  using empty_info_ok by (simp_all add: cb_start_def can_thread_def can_send_def)

theorem register_all_appends_witness:
  "\<exists>x s' i'. run_state (register_all [(CR_CB_RESTART, 7, 0, SIGNAL_CONTEXT), (CR_CB_RESTART, 9, 1, THREAD_CONTEXT)])
      cb_start = (x, s') \<and> cb_info s' = Some i' \<and> map cb_func (registered i' CR_CB_RESTART) = [7, 9] \<and>
    thread_running s'"
proof -
  obtain x s' i' where "run_state (register_all
      [(CR_CB_RESTART, 7, 0, SIGNAL_CONTEXT), (CR_CB_RESTART, 9, 1, THREAD_CONTEXT)]) cb_start = (x, s')"
    "cb_info s' = Some i'" "registered i' CR_CB_RESTART = take CR_CB_MAX_CALLBACKS
       [callback_of (7, 0, SIGNAL_CONTEXT), callback_of (9, 1, THREAD_CONTEXT)]" "thread_running s'"
    using register_all_appends [OF cb_start_ok(1,2,3),
        of "[(CR_CB_RESTART, 7, 0, SIGNAL_CONTEXT), (CR_CB_RESTART, 9, 1, THREAD_CONTEXT)]"] empty_info_ok
    by fastforce
  then show ?thesis by (simp add: CR_CB_MAX_CALLBACKS_def callback_of_def)
qed

text \<open>
  C10.  \<^verbatim>\<open>run_callbacks\<close> calls exactly the callbacks registered for the current hook and the given
  context, in the order of registration and with their arguments, and stops at the first one that
  fails: the result is 0 if all ran and succeeded, otherwise the result of the failing one.
\<close>

theorem run_callbacks_in_order:
  assumes "cb_info s = Some i" and "info_ok i" and "current_hook s = Some h"
  shows "\<exists>r rs s'. run_state (run_callbacks ctx) s = (Inr r, s') \<and>
    cb_calls (trace s') = cb_calls (trace s) @ calls_of (filter (in_context ctx) (registered i h)) rs \<and>
    (if r = 0 then length rs = length (filter (in_context ctx) (registered i h)) \<and> (\<forall>x \<in> set rs. x = 0)
     else length rs \<le> length (filter (in_context ctx) (registered i h)) \<and> (\<exists>n. rs = replicate n 0 @ [r])) \<and>
    faults (trace s') = faults (trace s)"
  using run_run_callbacks [OF assms, of ctx] unfolding ran_def by blast

theorem run_callbacks_in_order_witness:
  "\<exists>r s'. run_state (run_callbacks SIGNAL_CONTEXT) (cb_start\<lparr>current_hook := Some CR_CB_CONTINUE\<rparr>) = (Inr r, s') \<and>
    cb_calls (trace s') = []"
proof -
  let ?s = "cb_start\<lparr>current_hook := Some CR_CB_CONTINUE\<rparr>"
  have "cb_info ?s = Some empty_info" "current_hook ?s = Some CR_CB_CONTINUE" by (simp_all add: cb_start_def)
  from run_callbacks_in_order [OF this(1) cb_start_ok(2) this(2), of SIGNAL_CONTEXT] show ?thesis
    using empty_info_ok [of CR_CB_CONTINUE] by (auto simp: calls_of_def cb_start_def)
qed

section \<open>The report of a checkpoint\<close>

lemma run_handler_work:
  assumes "cb_info s = Some i" and "info_ok i" and "current_hook s = Some CR_CB_CHECKPOINT" and "can_send s"
  shows "\<exists>r rs s'. run_state handler_work s = (Inr (), s') \<and> frame s s' \<and>
    ran (filter (in_context SIGNAL_CONTEXT) (registered i CR_CB_CHECKPOINT)) rs r \<and>
    cb_calls (trace s') = cb_calls (trace s) @
      calls_of (filter (in_context SIGNAL_CONTEXT) (registered i CR_CB_CHECKPOINT)) rs \<and>
    messages (trace s') = messages (trace s) @
      (if r \<noteq> 0 then [CR_CB_ERR] else if thread_running s then [] else [CR_CB_CHKPT_APP])"
proof -
  obtain r rs s1 where 1: "run_state (run_callbacks SIGNAL_CONTEXT) s = (Inr r, s1)" "frame s s1"
    "ran (filter (in_context SIGNAL_CONTEXT) (registered i CR_CB_CHECKPOINT)) rs r"
    "cb_calls (trace s1) = cb_calls (trace s) @
      calls_of (filter (in_context SIGNAL_CONTEXT) (registered i CR_CB_CHECKPOINT)) rs"
    "messages (trace s1) = messages (trace s)"
    using run_run_callbacks [OF assms(1-3)] by blast
  have h: "current_hook s1 = Some CR_CB_CHECKPOINT" "thread_running s1 = thread_running s"
    using frame_cb [OF 1(2)] assms(3) by simp_all
  have "can_send s1" using assms(4) can_send_frame [OF 1(2)] by simp
  then obtain r2 s2 where 2: "run_state (send_message (if r \<noteq> 0 then CR_CB_ERR else CR_CB_CHKPT_APP)) s1 = (r2, s2)"
      "frame s1 s2" "messages (trace s2) = messages (trace s1) @ [if r \<noteq> 0 then CR_CB_ERR else CR_CB_CHKPT_APP]"
      "cb_calls (trace s2) = cb_calls (trace s1)"
    using run_send by blast
  have f: "frame s s2" using frame_trans [OF 1(2) 2(2)] .
  show ?thesis
  proof (cases "r = 0 \<and> thread_running s")
    case True
    then have "run_state handler_work s = (Inr (), s1)" using 1(1) h by (simp add: handler_work_def handler_report_def)
    then show ?thesis using 1 True by auto
  next
    case False
    then have "run_state handler_work s = (Inr (), s2)"
      using 1(1) 2(1) h by (auto simp: handler_work_def handler_report_def)
    then show ?thesis using 1 2 f False by (intro exI [of _ r] exI [of _ rs] exI [of _ s2]) auto
  qed
qed

lemma run_worker_work:
  assumes "cb_info s = Some i" and "info_ok i" and "current_hook s = Some CR_CB_CHECKPOINT" and "can_send s"
  shows "\<exists>r rs s'. run_state worker_work s = (Inr (), s') \<and> frame s s' \<and>
    ran (filter (in_context THREAD_CONTEXT) (registered i CR_CB_CHECKPOINT)) rs r \<and>
    cb_calls (trace s') = cb_calls (trace s) @
      calls_of (filter (in_context THREAD_CONTEXT) (registered i CR_CB_CHECKPOINT)) rs \<and>
    messages (trace s') = messages (trace s) @ [if r \<noteq> 0 then CR_CB_ERR else CR_CB_CHKPT_APP]"
proof -
  obtain r rs s1 where 1: "run_state (run_callbacks THREAD_CONTEXT) s = (Inr r, s1)" "frame s s1"
    "ran (filter (in_context THREAD_CONTEXT) (registered i CR_CB_CHECKPOINT)) rs r"
    "cb_calls (trace s1) = cb_calls (trace s) @
      calls_of (filter (in_context THREAD_CONTEXT) (registered i CR_CB_CHECKPOINT)) rs"
    "messages (trace s1) = messages (trace s)"
    using run_run_callbacks [OF assms(1-3)] by blast
  have h: "current_hook s1 = Some CR_CB_CHECKPOINT" using frame_cb [OF 1(2)] assms(3) by simp
  have "can_send s1" using assms(4) can_send_frame [OF 1(2)] by simp
  then obtain r2 s2 where 2: "run_state (send_message (if r \<noteq> 0 then CR_CB_ERR else CR_CB_CHKPT_APP)) s1 = (r2, s2)"
      "frame s1 s2" "messages (trace s2) = messages (trace s1) @ [if r \<noteq> 0 then CR_CB_ERR else CR_CB_CHKPT_APP]"
      "cb_calls (trace s2) = cb_calls (trace s1)"
    using run_send by blast
  have "run_state worker_work s = (Inr (), s2)" using 1(1) 2(1) h by (simp add: worker_work_def)
  then show ?thesis using 1 2 frame_trans [OF 1(2) 2(2)] by (intro exI [of _ r] exI [of _ rs] exI [of _ s2]) auto
qed



section \<open>All interleavings\<close>

inductive cb_reachable :: "machine \<Rightarrow> machine \<Rightarrow> bool" for m0 where
  start: "cb_reachable m0 m0"
| step: "cb_reachable m0 m \<Longrightarrow> cb_step m m' \<Longrightarrow> cb_reachable m0 m'"

text \<open>
  A machine just after the worker was started: the mutex is held by the registering thread, and
  nothing happened yet.
\<close>

definition cb_initial :: "machine \<Rightarrow> bool" where
  "cb_initial m \<longleftrightarrow> (\<exists>i. cb_info (proc m) = Some i \<and> info_ok i) \<and> thread_running (proc m) \<and>
     mutex_locked (proc m) \<and> hpc m = H_idle \<and> wpc m = W_check \<and> handled m = 0 \<and> rounds m = 0"

definition cb_inv :: "machine \<Rightarrow> bool" where
  "cb_inv m \<longleftrightarrow> (\<exists>i. cb_info (proc m) = Some i \<and> info_ok i) \<and> thread_running (proc m) \<and>
     rounds m + (if mutex_locked (proc m) then 0 else 1) \<le> handled m \<and>
     (hpc m \<noteq> H_idle \<longrightarrow> current_hook (proc m) \<noteq> None) \<and> (wpc m = W_run \<longrightarrow> 0 < rounds m) \<and>
     (0 < handled m \<longrightarrow> current_hook (proc m) \<noteq> None) \<and> wpc m \<noteq> W_end"

lemma framed_run_from [framed_intros]: "framed (run_from ctx cbs)"
  by (induction cbs) (auto intro!: framed_intros)

lemma framed_work [framed_intros]:
  "framed (run_callbacks ctx)" "framed handler_work" "framed worker_work"
  unfolding handler_work_def worker_work_def handler_report_def run_callbacks_def cr_cb_abort_def
  by (intro framed_intros)+

lemma cb_step_inv:
  assumes "cb_step m m'" and "cb_inv m"
  shows "cb_inv m'"
  using assms
proof (cases rule: cb_step.cases)
  case (handler p)
  then have "frame (proc m) p" using framedD [OF framed_work(2)] by blast
  then show ?thesis using handler assms(2) frame_cb [of "proc m" p] by (auto simp: cb_inv_def)
next
  case (wake p)
  then have "p = (proc m)\<lparr>mutex_locked := False\<rparr>" using assms(2) by (simp add: cb_inv_def handler_wake_def)
  then show ?thesis using wake assms(2) by (auto simp: cb_inv_def split: if_splits)
next
  case (work p)
  then have "frame (proc m) p" using framedD [OF framed_work(3)] by blast
  then show ?thesis using work assms(2) frame_cb [of "proc m" p] by (auto simp: cb_inv_def)
qed (auto simp: cb_inv_def split: if_splits)

lemma cb_reachable_inv: "cb_reachable m0 m \<Longrightarrow> cb_initial m0 \<Longrightarrow> cb_inv m"
proof (induction rule: cb_reachable.induct)
  case start
  then show ?case by (auto simp: cb_initial_def cb_inv_def)
next
  case (step m m')
  then show ?case by (blast intro: cb_step_inv)
qed



section \<open>The tool side\<close>

fun kills :: "event list \<Rightarrow> (int \<times> int) list" where
  "kills [] = []"
| "kills (Sys (Kill p g) r # es) = (p, g) # kills es"
| "kills (e # es) = kills es"

text \<open>Message queues created and not removed.\<close>

fun queues :: "event list \<Rightarrow> int" where
  "queues [] = 0"
| "queues (Sys (Msgget k f) r # es) = (if f = 932 \<and> 0 \<le> resp_ret r then 1 else 0) + queues es"
| "queues (Sys (Msgctl_rmid q) r # es) = queues es - (if resp_ret r = 0 then 1 else 0)"
| "queues (e # es) = queues es"

lemma kills_append [simp]: "kills (es @ fs) = kills es @ kills fs"
  by (induction es rule: kills.induct) simp_all

lemma queues_append [simp]: "queues (es @ fs) = queues es + queues fs"
  by (induction es rule: queues.induct) simp_all

lemma detect_quiet:
  assumes "run_state (cr_detect_callbacks pid a) s = (d, s')"
  shows "frame s s' \<and> kills (trace s') = kills (trace s) \<and> queues (trace s') = queues (trace s)"
proof -
  have "framed (cr_detect_callbacks pid a)"
    unfolding cr_detect_callbacks_def by (intro framed_intros)
  moreover have "keeps kills (cr_detect_callbacks pid a)" and "keeps queues (cr_detect_callbacks pid a)"
    unfolding cr_detect_callbacks_def application_get_userdata_from_appid_def application_get_userdata_from_pid_def
      get_userdata_def call_kerrighed_services_def open_kerrighed_services_def close_kerrighed_services_def
      call_opened_kerrighed_services_def
    by (intro keeps_intros; simp add: blind_def)+
  ultimately show ?thesis using framedD keepsD assms by metis
qed

text \<open>
  C22.  \<^verbatim>\<open>cr_execute_chkpt_callbacks\<close> signals an application only if the application declared
  callbacks and a queue for the answer exists, and then exactly once; when it succeeds, or an error
  is reported over the queue, the queue is gone.  A queue is left behind exactly when the signal, the
  wait or the removal itself fails.
\<close>

theorem execute_chkpt_callbacks_queue:
  assumes "run_state (cr_execute_chkpt_callbacks pid from_appid) s = (r, s')"
    and "run_state (cr_detect_callbacks pid from_appid) s = (d, s1)"
  defines "q \<equiv> answers s (trace s1) (Msgget (to_int pid) 932)"
  defines "k \<equiv> answers s (trace s1 @ [Sys (Msgget (to_int pid) 932) q]) (Kill (to_int pid) SIG_CB_RUN_CHKPT)"
  shows "kills (trace s') = kills (trace s) @
      (if d = 0 \<and> 0 \<le> resp_ret q then [(to_int pid, SIG_CB_RUN_CHKPT)] else []) \<and>
    queues (trace s) \<le> queues (trace s') \<and> queues (trace s') \<le> queues (trace s) + 1 \<and>
    (d \<noteq> 0 \<longrightarrow> r = 0) \<and> (r = 0 \<longrightarrow> queues (trace s') = queues (trace s)) \<and>
    (d = 0 \<and> 0 \<le> resp_ret q \<and> resp_ret k \<noteq> 0 \<longrightarrow>
      r = resp_ret k \<and> queues (trace s') = queues (trace s) + 1)"
proof -
  have s1: "frame s s1" "kills (trace s1) = kills (trace s)" "queues (trace s1) = queues (trace s)"
    using detect_quiet [OF assms(2)] by auto
  have a: "answers s1 = answers s" using frame_answers [OF s1(1)] .
  show ?thesis
    using assms(1,2) s1(2,3)
    by (auto simp: cr_execute_chkpt_callbacks_def q_def k_def a split: if_splits)
qed

text \<open>An application with callbacks that cannot be signalled: the queue for its answer stays.\<close>

definition unsignalled :: "event list \<Rightarrow> req \<Rightarrow> resp" where
  "unsignalled tr q = (case q of
     Ioctl _ _ _ \<Rightarrow> Resp 0 None (DUser \<lparr>ur_app_id = 5, ur_flags = 0, ur_user_data = CR_CB_ACTIV_CB\<rparr>)
   | Kill _ _ \<Rightarrow> Resp (-1) (Some EPERM) NoData
   | _ \<Rightarrow> Resp 3 None NoData)"

theorem execute_chkpt_callbacks_queue_witness:
  "queues (trace (snd (run_state (cr_execute_chkpt_callbacks 5 True) (idle_os unsignalled)))) = 1 \<and>
   kills (trace (snd (run_state (cr_execute_chkpt_callbacks 5 True) (idle_os unsignalled)))) = [(5, SIG_CB_RUN_CHKPT)]"
proof -
  let ?s = "idle_os unsignalled"
  obtain r s' where 1: "run_state (cr_execute_chkpt_callbacks 5 True) ?s = (r, s')" by fastforce
  obtain d s1 where 2: "run_state (cr_detect_callbacks 5 True) ?s = (d, s1)" by fastforce
  have d: "d = 0"
    using 2 by (auto simp: cr_detect_callbacks_def application_get_userdata_from_appid_def get_userdata_def run_call
      Let_def idle_os_def unsignalled_def CR_CB_ACTIV_CB_def services_path_def)
  have a: "answers ?s = unsignalled" "queues (trace ?s) = 0" "kills (trace ?s) = []"
    by (simp_all add: idle_os_def)
  have p: "to_int 5 = 5" by (simp add: to_int_def)
  show ?thesis
    using execute_chkpt_callbacks_queue [OF 1 2] d unfolding 1 a p by (simp add: unsignalled_def)
qed

end
