(* ===== verification/Exclusion.thy ===== *)
theory Exclusion
  imports Callback
begin

text \<open>
  \<^verbatim>\<open>libs/libkrgcheckpoint/libkrgcheckpoint.c\<close>: memory regions an application excludes from its
  checkpoints.  The library keeps two linked lists, of excluded regions and of child processes, in
  memory it allocates itself.  Both heaps are explicit: a map from pointers to the structures
  allocated and not yet freed, with 0 as the null pointer; reading or freeing a pointer outside the
  map is a \<open>Fault\<close>, and a field of a fresh block that is not assigned holds whatever the
  allocator left there.  A walk along a list whose links form a cycle does not end, so the loops
  take a bound on their number of iterations; running out of it is the outcome \<open>Hangs\<close>.
\<close>

section \<open>State\<close>

text \<open>A structure \<^verbatim>\<open>cr_mm_region_excluded\<close>; \<open>region_next\<close> is the field \<^verbatim>\<open>region.next\<close>.\<close>

record cr_mm_region_excluded =
  region :: cr_mm_region
  region_next :: int
  excl_func :: int
  excl_arg :: int

record child_process =
  child_pid :: int
  child_next :: int

text \<open>
  The static variables of the file.  The last two fields are the addresses of the two callback
  functions of the library, which are fixed when the program is linked.
\<close>

record excl = cb +
  regions :: "int \<rightharpoonup> cr_mm_region_excluded"
  first_mm_region_excluded :: int
  children :: "int \<rightharpoonup> child_process"
  first_child :: int
  initialized :: bool
  pipefd :: "int \<times> int"
  checkpoint_cb_at :: int
  restart_cb_at :: int

datatype 'a outcome = Exits int | Hangs | Returns 'a

definition cr_disable :: "('a os_scheme, int) state" where
  "cr_disable = call_service KSYS_APP_CR_DISABLE NoData"

definition cr_enable :: "('a os_scheme, int) state" where
  "cr_enable = call_service KSYS_APP_CR_ENABLE NoData"

section \<open>The two heaps\<close>

text \<open>What the allocator left in the word of a fresh block that becomes a \<^verbatim>\<open>next\<close> field.\<close>

definition leftover :: "resp \<Rightarrow> int" where
  "leftover r = (case resp_data r of DInt x \<Rightarrow> x | _ \<Rightarrow> 0)"

definition get_region :: "int \<Rightarrow> ('a excl_scheme, cr_mm_region_excluded) state" where
  "get_region p = do {
     h \<leftarrow> gets regions;
     case h p of Some c \<Rightarrow> return c
     | None \<Rightarrow> do {
         emit Fault;
         return \<lparr>region = \<lparr>mr_pid = 0, mr_addr = 0, mr_size = 0\<rparr>, region_next = 0, excl_func = 0, excl_arg = 0\<rparr> } }"

definition put_region :: "int \<Rightarrow> cr_mm_region_excluded \<Rightarrow> ('a excl_scheme, unit) state" where
  "put_region p c = modify (\<lambda>s. s\<lparr>regions := (regions s)(p \<mapsto> c)\<rparr>)"

definition free_region :: "int \<Rightarrow> ('a excl_scheme, unit) state" where
  "free_region p = do {
     h \<leftarrow> gets regions;
     (if h p = None then emit Fault else return ());
     free;
     modify (\<lambda>s. s\<lparr>regions := (regions s)(p := None)\<rparr>) }"

definition get_child :: "int \<Rightarrow> ('a excl_scheme, child_process) state" where
  "get_child p = do {
     h \<leftarrow> gets children;
     case h p of Some c \<Rightarrow> return c
     | None \<Rightarrow> do { emit Fault; return \<lparr>child_pid = 0, child_next = 0\<rparr> } }"

definition put_child :: "int \<Rightarrow> child_process \<Rightarrow> ('a excl_scheme, unit) state" where
  "put_child p c = modify (\<lambda>s. s\<lparr>children := (children s)(p \<mapsto> c)\<rparr>)"

definition free_child :: "int \<Rightarrow> ('a excl_scheme, unit) state" where
  "free_child p = do {
     h \<leftarrow> gets children;
     (if h p = None then emit Fault else return ());
     free;
     modify (\<lambda>s. s\<lparr>children := (children s)(p := None)\<rparr>) }"

definition next_region :: "int \<Rightarrow> ('a excl_scheme, int) state" where
  "next_region p = do { c \<leftarrow> get_region p; return (region_next c) }"

section \<open>Initialisation\<close>

definition initiliaze_sigchild_handler :: "('a os_scheme, int) state" where
  "initiliaze_sigchild_handler = do { r \<leftarrow> syscall (Sigaction 17); return (resp_ret r) }"

definition init_handlers :: "('a excl_scheme, int) state" where
  "init_handlers = do {
     r \<leftarrow> initiliaze_sigchild_handler;
     if r \<noteq> 0 then return r
     else do {
       r \<leftarrow> syscall Pthread_atfork;
       if resp_ret r \<noteq> 0 then return (resp_ret r)
       else do { modify (\<lambda>s. s\<lparr>initialized := True\<rparr>); return 0 } } }"

definition cr_mm_exclusion_init :: "('a excl_scheme, int outcome) state" where
  "cr_mm_exclusion_init = do {
     i \<leftarrow> gets initialized;
     if i then return (Returns 0)
     else do {
       r \<leftarrow> cr_callback_init;
       if r \<noteq> 0 then return (Returns r)
       else do {
         at \<leftarrow> gets checkpoint_cb_at;
         c \<leftarrow> cr_register_chkpt_callback at 0;
         case c of Inl e \<Rightarrow> return (Exits e)
         | Inr r \<Rightarrow> if r \<noteq> 0 then return (Returns r)
           else do {
             at \<leftarrow> gets restart_cb_at;
             c \<leftarrow> cr_register_restart_callback at 0;
             case c of Inl e \<Rightarrow> return (Exits e)
             | Inr r \<Rightarrow> if r \<noteq> 0 then return (Returns r)
               else do { r \<leftarrow> init_handlers; return (Returns r) } } } } }"

section \<open>Child processes\<close>

definition link_child :: "int \<Rightarrow> int \<Rightarrow> ('a excl_scheme, unit) state" where
  "link_child child pid = do {
     f \<leftarrow> gets first_child;
     n \<leftarrow> (if f \<noteq> 0 then do { c \<leftarrow> get_child f; return (child_next c) } else return 0);
     put_child child \<lparr>child_pid = pid, child_next = n\<rparr>;
     modify (\<lambda>s. s\<lparr>first_child := child\<rparr>) }"

definition add_child :: "int \<Rightarrow> ('a excl_scheme, unit outcome) state" where
  "add_child pid = do {
     i \<leftarrow> cr_mm_exclusion_init;
     case i of Exits e \<Rightarrow> return (Exits e) | Hangs \<Rightarrow> return Hangs
     | Returns r \<Rightarrow>
         if r \<noteq> 0 then return (Returns ())
         else do {
           child \<leftarrow> syscall (Malloc 16);
           if resp_ret child = 0 then return (Returns ())
           else do { link_child (resp_ret child) pid; return (Returns ()) } } }"

fun free_children :: "nat \<Rightarrow> int \<Rightarrow> ('a excl_scheme, unit outcome) state" where
  "free_children 0 child = (if child = 0 then return (Returns ()) else return Hangs)"
| "free_children (Suc n) child =
     (if child = 0 then return (Returns ())
      else do { c \<leftarrow> get_child child; free_child child; free_children n (child_next c) })"

definition remove_all_children :: "nat \<Rightarrow> ('a excl_scheme, unit outcome) state" where
  "remove_all_children n = do {
     f \<leftarrow> gets first_child;
     w \<leftarrow> free_children n f;
     case w of Returns _ \<Rightarrow> do { modify (\<lambda>s. s\<lparr>first_child := 0\<rparr>); return w } | _ \<Rightarrow> return w }"

fun remove_child_from :: "nat \<Rightarrow> int \<Rightarrow> int \<Rightarrow> int \<Rightarrow> ('a excl_scheme, unit outcome) state" where
  "remove_child_from 0 prev child pid = (if child = 0 then return (Returns ()) else return Hangs)"
| "remove_child_from (Suc n) prev child pid =
     (if child = 0 then return (Returns ())
      else do {
        c \<leftarrow> get_child child;
        if child_pid c = pid then do {
          (if prev = 0 then modify (\<lambda>s. s\<lparr>first_child := child_next c\<rparr>)
           else do { d \<leftarrow> get_child prev; put_child prev (d\<lparr>child_next := child_next c\<rparr>) });
          free_child child;
          return (Returns ()) }
        else remove_child_from n child (child_next c) pid })"

definition remove_child :: "nat \<Rightarrow> int \<Rightarrow> ('a excl_scheme, unit outcome) state" where
  "remove_child n pid = do { f \<leftarrow> gets first_child; remove_child_from n 0 f pid }"

definition handle_sigchild :: "nat \<Rightarrow> int \<Rightarrow> ('a excl_scheme, unit outcome) state" where
  "handle_sigchild n si_pid = remove_child n si_pid"

section \<open>Excluded regions\<close>

datatype link = Busy | Linked | Endless

fun append_region :: "nat \<Rightarrow> int \<Rightarrow> int \<Rightarrow> 64 word \<Rightarrow> ('a excl_scheme, link) state" where
  "append_region 0 element mm_region addr = return Endless"
| "append_region (Suc n) element mm_region addr = do {
     c \<leftarrow> get_region element;
     if mr_addr (region c) = addr then return Busy
     else do {
       next \<leftarrow> next_region element;
       if next \<noteq> 0 then append_region n next mm_region addr
       else do { put_region element (c\<lparr>region_next := mm_region\<rparr>); return Linked } } }"

definition link_region :: "nat \<Rightarrow> int \<Rightarrow> 64 word \<Rightarrow> ('a excl_scheme, link) state" where
  "link_region n mm_region addr = do {
     f \<leftarrow> gets first_mm_region_excluded;
     if f = 0 then do { modify (\<lambda>s. s\<lparr>first_mm_region_excluded := mm_region\<rparr>); return Linked }
     else append_region n f mm_region addr }"

definition cr_exclude_on ::
  "nat \<Rightarrow> 64 word \<Rightarrow> 64 word \<Rightarrow> int \<Rightarrow> int \<Rightarrow> ('a excl_scheme, int outcome) state" where
  "cr_exclude_on n data datasize func arg = do {
     r \<leftarrow> syscall (Malloc 48);
     if resp_ret r = 0 then return (Returns (-1))
     else do {
       put_region (resp_ret r)
         \<lparr>region = \<lparr>mr_pid = 0, mr_addr = data, mr_size = datasize\<rparr>, region_next = leftover r,
          excl_func = func, excl_arg = arg\<rparr>;
       l \<leftarrow> link_region n (resp_ret r) data;
       case l of
         Endless \<Rightarrow> return Hangs
       | Busy \<Rightarrow> do { set_errno EBUSY; free_region (resp_ret r); return (Returns (-1)) }
       | Linked \<Rightarrow> do {
           i \<leftarrow> cr_mm_exclusion_init;
           (case i of Returns e \<Rightarrow> if e \<noteq> 0 then free_region (resp_ret r) else return () | _ \<Rightarrow> return ());
           return i } } }"

fun exclude_off_from :: "nat \<Rightarrow> int \<Rightarrow> int \<Rightarrow> 64 word \<Rightarrow> ('a excl_scheme, int outcome) state" where
  "exclude_off_from 0 prev_region mm_region data =
     (if mm_region = 0 then do { set_errno EINVAL; return (Returns (-1)) } else return Hangs)"
| "exclude_off_from (Suc n) prev_region mm_region data =
     (if mm_region = 0 then do { set_errno EINVAL; return (Returns (-1)) }
      else do {
        c \<leftarrow> get_region mm_region;
        if mr_addr (region c) = data then do {
          (if prev_region \<noteq> 0
           then do { d \<leftarrow> get_region prev_region; put_region prev_region (d\<lparr>region_next := region_next c\<rparr>) }
           else do { next \<leftarrow> next_region mm_region;
                     modify (\<lambda>s. s\<lparr>first_mm_region_excluded := next\<rparr>) });
          free_region mm_region;
          return (Returns 0) }
        else do { next \<leftarrow> next_region mm_region; exclude_off_from n mm_region next data } })"

definition cr_exclude_off :: "nat \<Rightarrow> 64 word \<Rightarrow> ('a excl_scheme, int outcome) state" where
  "cr_exclude_off n data = do {
     f \<leftarrow> gets first_mm_region_excluded;
     exclude_off_from n 0 f data }"

section \<open>Checkpoint and restart\<close>

fun stamp_regions :: "nat \<Rightarrow> int \<Rightarrow> ('a excl_scheme, unit outcome) state" where
  "stamp_regions 0 mm_region = (if mm_region = 0 then return (Returns ()) else return Hangs)"
| "stamp_regions (Suc n) mm_region =
     (if mm_region = 0 then return (Returns ())
      else do {
        pid \<leftarrow> syscall Getpid;
        c \<leftarrow> get_region mm_region;
        put_region mm_region (c\<lparr>region := (region c)\<lparr>mr_pid := resp_ret pid\<rparr>\<rparr>);
        next \<leftarrow> next_region mm_region;
        stamp_regions n next })"

text \<open>The list the kernel finds behind the pointer it is given.\<close>

fun region_list :: "nat \<Rightarrow> (int \<rightharpoonup> cr_mm_region_excluded) \<Rightarrow> int \<Rightarrow> cr_mm_region list" where
  "region_list 0 h p = []"
| "region_list (Suc n) h p =
     (if p = 0 then []
      else case h p of None \<Rightarrow> [] | Some c \<Rightarrow> region c # region_list n h (region_next c))"

fun children_do :: "(int \<Rightarrow> ('a excl_scheme, int) state) \<Rightarrow> nat \<Rightarrow> int \<Rightarrow> ('a excl_scheme, unit outcome) state"
  where
  "children_do f 0 child = (if child = 0 then return (Returns ()) else return Hangs)"
| "children_do f (Suc n) child =
     (if child = 0 then return (Returns ())
      else do {
        c \<leftarrow> get_child child;
        f (child_pid c);
        children_do f n (child_next c) })"

definition cr_mm_exclusion_checkpoint_cb :: "nat \<Rightarrow> ('a excl_scheme, int outcome) state" where
  "cr_mm_exclusion_checkpoint_cb n = do {
     f \<leftarrow> gets first_mm_region_excluded;
     if f = 0 then return (Returns 0)
     else do {
       w \<leftarrow> stamp_regions n f;
       case w of Returns _ \<Rightarrow> do {
           h \<leftarrow> gets regions;
           r \<leftarrow> call_service KSYS_APP_CR_EXCLUDE (DRegions (region_list n h f));
           (if r \<noteq> 0 then perror ''cr_exclude'' else return ());
           c \<leftarrow> gets first_child;
           w \<leftarrow> children_do (\<lambda>pid. cr_execute_chkpt_callbacks pid False) n c;
           case w of Returns _ \<Rightarrow> return (Returns r) | Exits e \<Rightarrow> return (Exits e) | Hangs \<Rightarrow> return Hangs }
       | Exits e \<Rightarrow> return (Exits e) | Hangs \<Rightarrow> return Hangs } }"

fun call_regions :: "nat \<Rightarrow> int \<Rightarrow> int \<Rightarrow> ('a excl_scheme, int outcome) state" where
  "call_regions 0 mm_region ret = (if mm_region = 0 then return (Returns ret) else return Hangs)"
| "call_regions (Suc n) mm_region ret =
     (if mm_region = 0 then return (Returns ret)
      else do {
        c \<leftarrow> get_region mm_region;
        ret' \<leftarrow> (if excl_func c \<noteq> 0
                 then do { r \<leftarrow> syscall (Callback (excl_func c) (excl_arg c));
                           return (if resp_ret r \<noteq> 0 then resp_ret r else ret) }
                 else return ret);
        next \<leftarrow> next_region mm_region;
        call_regions n next ret' })"

definition cr_mm_exclusion_restart_cb :: "nat \<Rightarrow> ('a excl_scheme, int outcome) state" where
  "cr_mm_exclusion_restart_cb n = do {
     f \<leftarrow> gets first_mm_region_excluded;
     w \<leftarrow> call_regions n f 0;
     case w of Returns ret \<Rightarrow> do {
         c \<leftarrow> gets first_child;
         w \<leftarrow> children_do cr_execute_restart_callbacks n c;
         case w of Returns _ \<Rightarrow> return (Returns ret) | Exits e \<Rightarrow> return (Exits e) | Hangs \<Rightarrow> return Hangs }
     | Exits e \<Rightarrow> return (Exits e) | Hangs \<Rightarrow> return Hangs }"

section \<open>Forking and exit\<close>

definition parent_before_fork :: "('a excl_scheme, unit) state" where
  "parent_before_fork = do {
     r \<leftarrow> syscall Pipe;
     (case resp_data r of DInts [a, b] \<Rightarrow> modify (\<lambda>s. s\<lparr>pipefd := (a, b)\<rparr>) | _ \<Rightarrow> return ());
     (if resp_ret r \<noteq> 0 then perror ''pipe'' else return ()) }"

text \<open>\<^verbatim>\<open>pid\<close> keeps its unassigned value when the pipe cannot be read, and is added all the same.\<close>

definition parent_after_fork :: "('a excl_scheme, unit outcome) state" where
  "parent_after_fork = do {
     fd \<leftarrow> gets pipefd;
     u \<leftarrow> uninit;
     r \<leftarrow> syscall (Read (fst fd) 4);
     (if resp_ret r = -1 then perror ''read'' else return ());
     syscall (Close (fst fd));
     syscall (Close (snd fd));
     add_child (case resp_data r of DInt pid \<Rightarrow> pid | _ \<Rightarrow> u) }"

definition child_after_fork :: "nat \<Rightarrow> ('a excl_scheme, unit outcome) state" where
  "child_after_fork n = do {
     pid \<leftarrow> syscall Getpid;
     w \<leftarrow> remove_all_children n;
     case w of Returns _ \<Rightarrow> do {
         fd \<leftarrow> gets pipefd;
         syscall (Close (fst fd));
         r \<leftarrow> syscall (Write (snd fd) (DInt (resp_ret pid)));
         (if resp_ret r = -1 then perror ''write'' else return ());
         syscall (Close (snd fd));
         return (Returns ()) }
     | Exits e \<Rightarrow> return (Exits e) | Hangs \<Rightarrow> return Hangs }"

fun free_regions :: "nat \<Rightarrow> int \<Rightarrow> ('a excl_scheme, unit outcome) state" where
  "free_regions 0 mm_region = (if mm_region = 0 then return (Returns ()) else return Hangs)"
| "free_regions (Suc n) mm_region =
     (if mm_region = 0 then return (Returns ())
      else do { next \<leftarrow> next_region mm_region; free_region mm_region; free_regions n next })"

definition cr_mm_exclusion_exit :: "nat \<Rightarrow> ('a excl_scheme, unit outcome) state" where
  "cr_mm_exclusion_exit n = do {
     f \<leftarrow> gets first_mm_region_excluded;
     w \<leftarrow> free_regions n f;
     case w of Returns _ \<Rightarrow> remove_all_children n | Exits e \<Rightarrow> return (Exits e) | Hangs \<Rightarrow> return Hangs }"

section \<open>Linked lists\<close>

text \<open>
  What both lists rely on: a structure with a \<^verbatim>\<open>next\<close> field.  \<open>path h p ps\<close> says that following
  the links of the heap \<open>h\<close> from \<open>p\<close> visits the structures at \<open>ps\<close> and ends with the null
  pointer; it is kept by appending a fresh structure and by taking one out.
\<close>

locale linked =
  fixes nxt :: "'n \<Rightarrow> int" and set_nxt :: "int \<Rightarrow> 'n \<Rightarrow> 'n"
  assumes nxt_set [simp]: "nxt (set_nxt q c) = q"
begin

fun path :: "(int \<rightharpoonup> 'n) \<Rightarrow> int \<Rightarrow> int list \<Rightarrow> bool" where
  "path h p [] \<longleftrightarrow> p = 0"
| "path h p (q # qs) \<longleftrightarrow> p = q \<and> p \<noteq> 0 \<and> (\<exists>c. h p = Some c \<and> path h (nxt c) qs)"

lemma path_null [simp]: "path h 0 ps \<longleftrightarrow> ps = []"
  by (cases ps) auto

lemma path_dom: "path h p ps \<Longrightarrow> set ps \<subseteq> dom h \<and> 0 \<notin> set ps"
  by (induction ps arbitrary: p) auto

lemma path_other [simp]: "q \<notin> set ps \<Longrightarrow> path (h(q := x)) p ps = path h p ps"
  by (induction ps arbitrary: p) auto

lemma path_cong: "(\<And>q. q \<in> set ps \<Longrightarrow> map_option nxt (h q) = map_option nxt (h' q)) \<Longrightarrow> path h p ps = path h' p ps"
proof (induction ps arbitrary: p)
  case (Cons q qs)
  have "map_option nxt (h q) = map_option nxt (h' q)" using Cons.prems by simp
  then have "(\<exists>c. h q = Some c \<and> path h (nxt c) qs) = (\<exists>c. h' q = Some c \<and> path h (nxt c) qs)"
    by (cases "h q"; cases "h' q") auto
  then show ?case using Cons by auto
qed simp

lemma path_append:
  assumes "path h p (qs @ [q])" and "distinct (qs @ [q])" and "h q = Some c" and "h r = Some d"
    and "nxt d = 0" and "r \<noteq> 0" and "r \<notin> set (qs @ [q])"
  shows "path (h(q \<mapsto> set_nxt r c)) p (qs @ [q, r])"
  using assms by (induction qs arbitrary: p) auto

lemma path_unlink:
  assumes "path h p (qs @ q # r # rs)" and "distinct (qs @ q # r # rs)" and "h q = Some c" and "h r = Some d"
  shows "path (h(q \<mapsto> set_nxt (nxt d) c, r := None)) p (qs @ q # rs)"
  using assms by (induction qs arbitrary: p) auto

lemma path_at: "path h p (qs @ q # rs) \<Longrightarrow> q \<noteq> 0 \<and> (\<exists>c. h q = Some c \<and> path h (nxt c) rs)"
  by (induction qs arbitrary: p) auto

end

interpretation regs: linked region_next "\<lambda>q c. c\<lparr>region_next := q\<rparr>"
  by unfold_locales simp

interpretation kids: linked child_next "\<lambda>q c. c\<lparr>child_next := q\<rparr>"
  by unfold_locales simp

section \<open>Running the heap operations\<close>

lemma run_get_region [simp]: "regions s p = Some c \<Longrightarrow> run_state (get_region p) s = (c, s)"
  by (simp add: get_region_def)

lemma run_put_region [simp]: "run_state (put_region p c) s = ((), s\<lparr>regions := (regions s)(p \<mapsto> c)\<rparr>)"
  by (simp add: put_region_def)

lemma run_next_region [simp]: "regions s p = Some c \<Longrightarrow> run_state (next_region p) s = (region_next c, s)"
  by (simp add: next_region_def)

lemma run_get_child [simp]: "children s p = Some c \<Longrightarrow> run_state (get_child p) s = (c, s)"
  by (simp add: get_child_def)

lemma run_put_child [simp]: "run_state (put_child p c) s = ((), s\<lparr>children := (children s)(p \<mapsto> c)\<rparr>)"
  by (simp add: put_child_def)

lemma frame_excl:
  assumes "frame s s'"
  shows "regions s' = regions s" and "first_mm_region_excluded s' = first_mm_region_excluded s"
    and "children s' = children s" and "first_child s' = first_child s" and "initialized s' = initialized s"
    and "pipefd s' = pipefd s" and "checkpoint_cb_at s' = checkpoint_cb_at s" and "restart_cb_at s' = restart_cb_at s"
  using assms unfolding frame_def by (cases s; cases s'; simp)+

lemma after_excl [simp]:
  "regions (after q s) = regions s" "first_mm_region_excluded (after q s) = first_mm_region_excluded s"
  "children (after q s) = children s" "first_child (after q s) = first_child s"
  "initialized (after q s) = initialized s" "pipefd (after q s) = pipefd s"
  by (rule frame_excl [OF frame_after])+

lemma run_free_region [simp]:
  "regions s p \<noteq> None \<Longrightarrow>
   run_state (free_region p) s = ((), (after Free s)\<lparr>regions := (regions s)(p := None)\<rparr>)"
  by (auto simp: free_region_def)

lemma run_free_child [simp]:
  "children s p \<noteq> None \<Longrightarrow>
   run_state (free_child p) s = ((), (after Free s)\<lparr>children := (children s)(p := None)\<rparr>)"
  by (auto simp: free_child_def)

section \<open>The list of excluded regions\<close>

type_synonym exclusion = "64 word \<times> 64 word \<times> int \<times> int"

definition exclusion_of :: "cr_mm_region_excluded \<Rightarrow> exclusion" where
  "exclusion_of c = (mr_addr (region c), mr_size (region c), excl_func c, excl_arg c)"

definition table :: "(int \<rightharpoonup> cr_mm_region_excluded) \<Rightarrow> int list \<Rightarrow> exclusion list" where
  "table h ps = map (\<lambda>p. exclusion_of (the (h p))) ps"

text \<open>
  The abstract state: the blocks at \<open>ps\<close> are exactly the allocated ones, linked in this order, and
  hold the exclusions \<open>es\<close>, no two of the same address.
\<close>

definition excludes :: "'a excl_scheme \<Rightarrow> int list \<Rightarrow> exclusion list \<Rightarrow> bool" where
  "excludes s ps es \<longleftrightarrow> regs.path (regions s) (first_mm_region_excluded s) ps \<and> distinct ps \<and>
     dom (regions s) = set ps \<and> es = table (regions s) ps \<and> distinct (map fst es)"

lemma table_other [simp]: "q \<notin> set ps \<Longrightarrow> table (h(q := x)) ps = table h ps"
  by (auto simp: table_def)

lemma table_same: "(\<And>q. q \<in> set ps \<Longrightarrow> exclusion_of (the (h q)) = exclusion_of (the (h' q))) \<Longrightarrow> table h ps = table h' ps"
  by (simp add: table_def)

lemma run_append_region:
  assumes "regs.path (regions s) e (qs @ [q])" and "length qs < n" and "regions s q = Some c"
  shows "run_state (append_region n e r a) s =
    (if a \<in> set (map fst (table (regions s) (qs @ [q]))) then (Busy, s)
     else (Linked, s\<lparr>regions := (regions s)(q \<mapsto> c\<lparr>region_next := r\<rparr>)\<rparr>))"
  using assms
proof (induction qs arbitrary: e n)
  case Nil
  then obtain m where "n = Suc m" by (cases n) auto
  with Nil show ?case by (auto simp: table_def exclusion_of_def)
next
  case (Cons p qs)
  then obtain m d where n: "n = Suc m" and d: "regions s p = Some d" "e = p"
      "regs.path (regions s) (region_next d) (qs @ [q])"
    by (cases n) auto
  have nz: "region_next d \<noteq> 0" using d(3) by (metis regs.path_null snoc_eq_iff_butlast)
  have IH: "run_state (append_region m (region_next d) r a) s =
    (if a \<in> set (map fst (table (regions s) (qs @ [q]))) then (Busy, s)
     else (Linked, s\<lparr>regions := (regions s)(q \<mapsto> c\<lparr>region_next := r\<rparr>)\<rparr>))"
    using Cons.IH [OF d(3)] Cons.prems n by simp
  show ?case using n d nz IH by (auto simp: table_def exclusion_of_def fun_upd_def simp del: set_map)
qed

text \<open>\<open>calm s s'\<close>: no fault occurred, and the other list and the environment are as before.\<close>

definition calm :: "'a excl_scheme \<Rightarrow> 'a excl_scheme \<Rightarrow> bool" where
  "calm s s' \<longleftrightarrow> answers s' = answers s \<and> children s' = children s \<and> first_child s' = first_child s \<and>
     faults (trace s') = faults (trace s) \<and> (initialized s \<longrightarrow> initialized s')"

lemma calm_trans: "calm s t \<Longrightarrow> calm t u \<Longrightarrow> calm s u"
  by (auto simp: calm_def)

lemma calm_simps [simp]:
  "calm s s" "calm s (s\<lparr>errno := e\<rparr>)" "calm s (s\<lparr>regions := h\<rparr>)" "calm s (s\<lparr>first_mm_region_excluded := p\<rparr>)"
  "calm s (after q s)"
  by (simp_all add: calm_def faults_def)

lemma filter_drop_one:
  assumes "distinct (map f (xs @ y # ys))"
  shows "filter (\<lambda>e. f e \<noteq> f y) (xs @ y # ys) = xs @ ys"
proof -
  have "f y \<notin> f ` set xs" and "f y \<notin> f ` set ys" using assms by auto
  then have "filter (\<lambda>e. f e \<noteq> f y) xs = xs" and "filter (\<lambda>e. f e \<noteq> f y) ys = ys"
    by (auto simp: filter_id_conv) (metis imageI)+
  then show ?thesis by simp
qed

lemma excludes_dropped:
  assumes "excludes s (qs @ r # rs) es" and "regions s r = Some d"
    and "regions s' = (if qs = [] then regions s
           else (regions s)(last qs \<mapsto> (the (regions s (last qs)))\<lparr>region_next := region_next d\<rparr>))(r := None)"
    and "first_mm_region_excluded s' = (if qs = [] then region_next d else first_mm_region_excluded s)"
  shows "excludes s' (qs @ rs) (filter (\<lambda>e. fst e \<noteq> mr_addr (region d)) es)"
proof -
  let ?h = "regions s"
  have e: "regs.path ?h (first_mm_region_excluded s) (qs @ r # rs)" "distinct (qs @ r # rs)"
      "dom ?h = set (qs @ r # rs)" "es = table ?h (qs @ r # rs)" "distinct (map fst es)"
    using assms(1) by (auto simp: excludes_def)
  have p: "regs.path (regions s') (first_mm_region_excluded s') (qs @ rs)"
  proof (cases qs rule: rev_cases)
    case Nil
    then show ?thesis using e assms(2,3,4) by auto
  next
    case (snoc us u)
    then obtain c where "?h u = Some c" using e(3) by auto
    then show ?thesis
      using regs.path_unlink [of ?h "first_mm_region_excluded s" us u r rs c d] e assms(2,3,4) snoc by simp
  qed
  have t: "table (regions s') (qs @ rs) = table ?h (qs @ rs)"
  proof (rule table_same)
    fix q assume "q \<in> set (qs @ rs)"
    then show "exclusion_of (the (regions s' q)) = exclusion_of (the (?h q))"
      using e(2) assms(3) by (auto simp: exclusion_of_def)
  qed
  have es: "es = table ?h qs @ exclusion_of d # table ?h rs" using e(4) assms(2) by (simp add: table_def)
  have "fst (exclusion_of d) = mr_addr (region d)" by (simp add: exclusion_of_def)
  then have "filter (\<lambda>e. fst e \<noteq> mr_addr (region d)) es = table ?h qs @ table ?h rs"
    using filter_drop_one [of fst "table ?h qs" "exclusion_of d" "table ?h rs"] e(5) unfolding es by simp
  then have "filter (\<lambda>e. fst e \<noteq> mr_addr (region d)) es = table ?h (qs @ rs)" by (simp add: table_def)
  moreover have "dom (regions s') = set (qs @ rs)" using e(2,3) assms(3) by auto
  ultimately show ?thesis
    using p t e(2) distinct_map_filter [OF e(5), of "\<lambda>e. fst e \<noteq> mr_addr (region d)"] by (simp add: excludes_def)
qed

lemma run_exclude_off_from:
  assumes "excludes s (qs @ rs) es" and "length rs \<le> n" and "a \<notin> set (map fst (table (regions s) qs))"
  shows "\<exists>s' ps. run_state (exclude_off_from n (if qs = [] then 0 else last qs) (if rs = [] then 0 else hd rs) a) s
      = (Returns (if a \<in> fst ` set es then 0 else -1), s') \<and>
    excludes s' ps (filter (\<lambda>e. fst e \<noteq> a) es) \<and> calm s s'"
  using assms
proof (induction rs arbitrary: qs n)
  case Nil
  then have "a \<notin> fst ` set es" by (auto simp: excludes_def)
  then have "filter (\<lambda>e. fst e \<noteq> a) es = es" by (auto simp: filter_id_conv)
  then show ?case using Nil \<open>a \<notin> fst ` set es\<close>
    by (intro exI [of _ "s\<lparr>errno := EINVAL\<rparr>"] exI [of _ qs], cases n) (auto simp: excludes_def)
next
  case (Cons r rs)
  then obtain m where n: "n = Suc m" by (cases n) auto
  have pa: "regs.path (regions s) (first_mm_region_excluded s) (qs @ r # rs)" "distinct (qs @ r # rs)"
      "dom (regions s) = set (qs @ r # rs)" "es = table (regions s) (qs @ r # rs)"
    using Cons.prems(1) by (auto simp: excludes_def)
  obtain d where d: "regions s r = Some d" "r \<noteq> 0" "regs.path (regions s) (region_next d) rs"
    using regs.path_at [OF pa(1)] by blast
  have nx: "region_next d = (if rs = [] then 0 else hd rs)" using d(3) by (cases rs) auto
  show ?case
  proof (cases "mr_addr (region d) = a")
    case True
    let ?h = "if qs = [] then regions s
           else (regions s)(last qs \<mapsto> (the (regions s (last qs)))\<lparr>region_next := region_next d\<rparr>)"
    let ?s1 = "(if qs = [] then s\<lparr>first_mm_region_excluded := region_next d\<rparr> else s\<lparr>regions := ?h\<rparr>)"
    let ?s' = "(after Free ?s1)\<lparr>regions := (regions ?s1)(r := None)\<rparr>"
    have l: "qs \<noteq> [] \<Longrightarrow> last qs \<noteq> 0 \<and> last qs \<noteq> r \<and> (\<exists>c. regions s (last qs) = Some c)"
      using pa(2,3) regs.path_dom [OF pa(1)] by (metis Un_iff distinct_append disjoint_iff domD last_in_set
        list.set_intros(1) set_append)
    have "run_state (exclude_off_from n (if qs = [] then 0 else last qs) (if r # rs = [] then 0 else hd (r # rs)) a) s
        = (Returns 0, ?s')"
      using n d(1,2) True l by (auto simp: nx)
    moreover have "excludes ?s' (qs @ rs) (filter (\<lambda>e. fst e \<noteq> a) es)"
      by (rule excludes_dropped [OF Cons.prems(1) d(1), of ?s', unfolded True]) (cases "qs = []"; simp)+
    moreover have "a \<in> fst ` set es" using True d(1) pa(4) by (auto simp: table_def exclusion_of_def)
    moreover have "calm s ?s'" by (auto simp: calm_def faults_def)
    ultimately show ?thesis by (intro exI [of _ ?s'] exI [of _ "qs @ rs"]) simp
  next
    case False
    have "a \<notin> set (map fst (table (regions s) (qs @ [r])))"
      using Cons.prems(3) False d(1) by (auto simp: table_def exclusion_of_def)
    from Cons.IH [of "qs @ [r]" m, OF _ _ this] Cons.prems(1,2) n obtain s' ps where
      "run_state (exclude_off_from m r (if rs = [] then 0 else hd rs) a) s
        = (Returns (if a \<in> fst ` set es then 0 else -1), s')"
      "excludes s' ps (filter (\<lambda>e. fst e \<noteq> a) es)" "calm s s'" by auto
    then show ?thesis using n d(1,2) False by (intro exI [of _ s'] exI [of _ ps]) (simp add: nx)
  qed
qed

lemma run_exclude_off:
  assumes "excludes s ps es" and "length ps \<le> n"
  shows "\<exists>s' ps'. run_state (cr_exclude_off n a) s = (Returns (if a \<in> fst ` set es then 0 else -1), s') \<and>
    excludes s' ps' (filter (\<lambda>e. fst e \<noteq> a) es) \<and> calm s s'"
proof -
  have "first_mm_region_excluded s = (if ps = [] then 0 else hd ps)"
    using assms(1) by (cases ps) (auto simp: excludes_def)
  then show ?thesis
    using run_exclude_off_from [of s "[]" ps es n a] assms by (simp add: cr_exclude_off_def table_def)
qed

section \<open>Initialising\<close>

text \<open>An environment in which the library can be initialised.\<close>

definition obliging :: "'a os_scheme \<Rightarrow> bool" where
  "obliging s \<longleftrightarrow> can_open s \<and> (\<forall>tr. resp_ret (answers s tr (Malloc (16 + 3 * 40 * 24))) \<noteq> 0 \<and>
     (\<forall>g. resp_ret (answers s tr (Sigaction g)) = 0) \<and> resp_ret (answers s tr Pthread_atfork) = 0 \<and>
     (\<forall>fd d. resp_ret (answers s tr (Ioctl fd KSYS_APP_SET_USERDATA d)) = 0))"

lemma run_callback_init:
  assumes "obliging s"
  shows "\<exists>s'. run_state cr_callback_init s = (0, s') \<and> cb_info s' = Some empty_info \<and>
    answers s' = answers s \<and> cb.more s' = cb.more s \<and> faults (trace s') = faults (trace s)"
proof -
  have "can_open s" "\<And>tr. resp_ret (answers s tr (Malloc 2896)) \<noteq> 0"
      "\<And>tr g. resp_ret (answers s tr (Sigaction g)) = 0"
      "\<And>tr fd d. resp_ret (answers s tr (Ioctl fd KSYS_APP_SET_USERDATA d)) = 0"
    using assms by (simp_all add: obliging_def)
  then show ?thesis
    by (simp add: cr_callback_init_def initialize_cb_info_def run_malloc initialize_signal_handlers_def declare_cb_def
      application_set_userdata_def call_service_def run_call Let_def can_open_def faults_def after_def)
qed

lemma run_register_signal:
  assumes "cb_info s = Some i" and "info_ok i" and "length (registered i h) < CR_CB_MAX_CALLBACKS"
  shows "\<exists>i'. run_state (register_callback h f a SIGNAL_CONTEXT) s = (Inr 0, s\<lparr>cb_info := Some i'\<rparr>) \<and> info_ok i' \<and>
    registered i' h = registered i h @ [callback_of (f, a, SIGNAL_CONTEXT)] \<and>
    (\<forall>h'. h' \<noteq> h \<longrightarrow> registered i' h' = registered i h')"
proof -
  from callbacks.add_some [OF assms(2,3), of "callback_of (f, a, SIGNAL_CONTEXT)"] obtain i' where
    "store_callback h (callback_of (f, a, SIGNAL_CONTEXT)) i = Some i'" "info_ok i'"
    "registered i' h = registered i h @ [callback_of (f, a, SIGNAL_CONTEXT)]"
    "\<forall>h'. h' \<noteq> h \<longrightarrow> registered i' h' = registered i h'" by blast
  then show ?thesis
    using assms(1) by (intro exI [of _ i']) (simp add: register_callback_def callback_of_def)
qed

text \<open>Both callbacks of the library are registered and the lists are untouched.\<close>

definition hooked :: "'a excl_scheme \<Rightarrow> bool" where
  "hooked s \<longleftrightarrow> (\<exists>i. cb_info s = Some i \<and> info_ok i \<and>
     registered i CR_CB_CHECKPOINT = [callback_of (checkpoint_cb_at s, 0, SIGNAL_CONTEXT)] \<and>
     registered i CR_CB_RESTART = [callback_of (restart_cb_at s, 0, SIGNAL_CONTEXT)])"

lemma more_excl:
  assumes "cb.more s' = cb.more s"
  shows "regions s' = regions s" and "first_mm_region_excluded s' = first_mm_region_excluded s"
    and "children s' = children s" and "first_child s' = first_child s" and "initialized s' = initialized s"
    and "checkpoint_cb_at s' = checkpoint_cb_at s" and "restart_cb_at s' = restart_cb_at s"
  using assms by (cases s; cases s'; simp)+

lemma run_init_handlers:
  assumes "obliging s"
  shows "run_state init_handlers s = (0, (after Pthread_atfork (after (Sigaction 17) s))\<lparr>initialized := True\<rparr>)"
  using assms by (simp add: init_handlers_def initiliaze_sigchild_handler_def obliging_def)

lemma run_exclusion_init:
  assumes "obliging s" and "\<not> initialized s"
  shows "\<exists>s'. run_state cr_mm_exclusion_init s = (Returns 0, s') \<and> initialized s' \<and> hooked s' \<and> calm s s' \<and>
    regions s' = regions s \<and> first_mm_region_excluded s' = first_mm_region_excluded s"
proof -
  obtain s1 where 1: "run_state cr_callback_init s = (0, s1)" "cb_info s1 = Some empty_info"
      "answers s1 = answers s" "cb.more s1 = cb.more s" "faults (trace s1) = faults (trace s)"
    using run_callback_init [OF assms(1)] by blast
  have lt: "length (registered empty_info h) < CR_CB_MAX_CALLBACKS" for h
    using empty_info_ok by (simp add: CR_CB_MAX_CALLBACKS_def)
  obtain i where 2: "run_state (register_callback CR_CB_CHECKPOINT (checkpoint_cb_at s1) 0 SIGNAL_CONTEXT) s1 =
      (Inr 0, s1\<lparr>cb_info := Some i\<rparr>)" "info_ok i"
      "registered i CR_CB_CHECKPOINT = [callback_of (checkpoint_cb_at s1, 0, SIGNAL_CONTEXT)]"
      "registered i CR_CB_RESTART = []"
    using run_register_signal [OF 1(2) _ lt] empty_info_ok by fastforce
  let ?s2 = "s1\<lparr>cb_info := Some i\<rparr>"
  obtain j where 3: "run_state (register_callback CR_CB_RESTART (restart_cb_at s1) 0 SIGNAL_CONTEXT) ?s2 =
      (Inr 0, ?s2\<lparr>cb_info := Some j\<rparr>)" "info_ok j"
      "registered j CR_CB_RESTART = [callback_of (restart_cb_at s1, 0, SIGNAL_CONTEXT)]"
      "registered j CR_CB_CHECKPOINT = [callback_of (checkpoint_cb_at s1, 0, SIGNAL_CONTEXT)]"
    using run_register_signal [of ?s2 i CR_CB_RESTART "restart_cb_at s1" 0] 2(2,3,4)
    by (auto simp: CR_CB_MAX_CALLBACKS_def)
  let ?s3 = "s1\<lparr>cb_info := Some j\<rparr>"
  have "obliging ?s3" using assms(1) 1(3) by (simp add: obliging_def can_open_def)
  note h = run_init_handlers [OF this]
  let ?s4 = "(after Pthread_atfork (after (Sigaction 17) ?s3))\<lparr>initialized := True\<rparr>"
  have r: "run_state cr_mm_exclusion_init s = (Returns 0, ?s4)"
    using assms(2) 1(1) 2(1) 3(1) h
    by (simp add: cr_mm_exclusion_init_def cr_register_chkpt_callback_def cr_register_restart_callback_def)
  have f: "frame ?s3 (after Pthread_atfork (after (Sigaction 17) ?s3))" by (meson frame_after frame_trans)
  have "hooked ?s4"
    using 3(2,3,4) frame_cb(1) [OF f] frame_excl(7,8) [OF f] by (simp add: hooked_def)
  moreover have "calm s ?s4" using 1(3,5) more_excl [OF 1(4)] by (simp add: calm_def faults_def)
  ultimately show ?thesis using r more_excl [OF 1(4)] by simp
qed

lemma run_init_ready:
  assumes "obliging s"
  shows "\<exists>s'. run_state cr_mm_exclusion_init s = (Returns 0, s') \<and> initialized s' \<and> calm s s' \<and>
    regions s' = regions s \<and> first_mm_region_excluded s' = first_mm_region_excluded s"
proof (cases "initialized s")
  case True
  then show ?thesis by (simp add: cr_mm_exclusion_init_def)
next
  case False
  from run_exclusion_init [OF assms False] show ?thesis by blast
qed

section \<open>Adding an exclusion\<close>

text \<open>
  The next block the allocator hands out for a region: not the null pointer, not in use, and with a
  zero in the word that becomes \<^verbatim>\<open>region.next\<close>, which \<^verbatim>\<open>cr_exclude_on\<close> never assigns.
\<close>

definition block_ok :: "'a excl_scheme \<Rightarrow> bool" where
  "block_ok s \<longleftrightarrow> (let r = answers s (trace s) (Malloc 48) in
     resp_ret r \<noteq> 0 \<and> regions s (resp_ret r) = None \<and> leftover r = 0)"

lemma run_link_region:
  assumes "excludes s ps es" and "length ps \<le> n" and "p \<noteq> 0" and "regions s p = None"
    and "mr_addr (region c) = a" and "region_next c = 0" and "regions s1 = (regions s)(p \<mapsto> c)"
    and "first_mm_region_excluded s1 = first_mm_region_excluded s"
  shows "if a \<in> fst ` set es then run_state (link_region n p a) s1 = (Busy, s1)
    else \<exists>s'. run_state (link_region n p a) s1 = (Linked, s') \<and> calm s1 s' \<and>
      excludes s' (ps @ [p]) (es @ [exclusion_of c])"
proof -
  have e: "regs.path (regions s) (first_mm_region_excluded s) ps" "distinct ps" "dom (regions s) = set ps"
      "es = table (regions s) ps" "distinct (map fst es)"
    using assms(1) by (auto simp: excludes_def)
  have np: "p \<notin> set ps" using e(3) assms(4) by blast
  have e1: "regs.path (regions s1) (first_mm_region_excluded s1) ps" "table (regions s1) ps = es"
    using e np assms(7,8) by simp_all
  have a: "fst (exclusion_of c) = a" using assms(5) by (simp add: exclusion_of_def)
  show ?thesis
  proof (cases ps rule: rev_cases)
    case Nil
    have z: "first_mm_region_excluded s1 = 0" using e1(1) Nil by simp
    have "excludes (s1\<lparr>first_mm_region_excluded := p\<rparr>) (ps @ [p]) (es @ [exclusion_of c])"
      using Nil assms(3,6,7) e(3,4) by (simp add: excludes_def table_def)
    then show ?thesis using Nil e(4) z
      by (auto simp: link_region_def table_def intro!: exI [of _ "s1\<lparr>first_mm_region_excluded := p\<rparr>"])
  next
    case (snoc qs q)
    then obtain d where d: "regions s1 q = Some d" using e1(1) regs.path_dom by fastforce
    have "first_mm_region_excluded s1 \<noteq> 0" using e1(1) snoc by (metis regs.path_null snoc_eq_iff_butlast)
    then have r: "run_state (link_region n p a) s1 = (if a \<in> fst ` set es then (Busy, s1)
        else (Linked, s1\<lparr>regions := (regions s1)(q \<mapsto> d\<lparr>region_next := p\<rparr>)\<rparr>))"
      using run_append_region [of s1 "first_mm_region_excluded s1" qs q n d p a] e1 assms(2) d
      by (simp add: link_region_def snoc)
    let ?s' = "s1\<lparr>regions := (regions s1)(q \<mapsto> d\<lparr>region_next := p\<rparr>)\<rparr>"
    have pth: "regs.path (regions ?s') (first_mm_region_excluded ?s') (ps @ [p])"
      using regs.path_append [of "regions s1" "first_mm_region_excluded s1" qs q d p c] e1(1) e(2) d np assms(3,6,7) snoc
      by simp
    have "exclusion_of (the (regions ?s' x)) = exclusion_of (the (regions s1 x))" for x
      using d by (simp add: exclusion_of_def)
    then have t: "table (regions ?s') (ps @ [p]) = es @ [exclusion_of c]"
      using e1(2) assms(7) table_same [of "ps @ [p]" "regions ?s'" "regions s1"] by (simp add: table_def)
    have "dom (regions ?s') = set (ps @ [p])" using e(3) assms(7) snoc by auto
    then have "a \<notin> fst ` set es \<Longrightarrow> excludes ?s' (ps @ [p]) (es @ [exclusion_of c])"
      using pth t np e(2,5) a unfolding excludes_def by simp
    then show ?thesis using r by (auto intro!: exI [of _ ?s'])
  qed
qed

lemma excludes_same:
  "excludes s ps es \<Longrightarrow> regions s' = regions s \<Longrightarrow> first_mm_region_excluded s' = first_mm_region_excluded s \<Longrightarrow>
   excludes s' ps es"
  unfolding excludes_def by metis

lemma run_exclude_on:
  assumes "excludes s ps es" and "length ps \<le> n" and "block_ok s" and "obliging s"
  shows "\<exists>s' ps'. run_state (cr_exclude_on n a sz f g) s = (Returns (if a \<in> fst ` set es then -1 else 0), s') \<and>
    excludes s' ps' (if a \<in> fst ` set es then es else es @ [(a, sz, f, g)]) \<and> calm s s'"
proof -
  let ?r = "answers s (trace s) (Malloc 48)"
  let ?p = "resp_ret ?r"
  let ?c = "\<lparr>region = \<lparr>mr_pid = 0, mr_addr = a, mr_size = sz\<rparr>, region_next = leftover ?r, excl_func = f, excl_arg = g\<rparr>"
  let ?s1 = "(after (Malloc 48) s)\<lparr>regions := (regions s)(?p \<mapsto> ?c)\<rparr>"
  have b: "?p \<noteq> 0" "regions s ?p = None" "leftover ?r = 0" using assms(3) by (simp_all add: block_ok_def Let_def)
  have c1: "calm s ?s1" by (simp add: calm_def faults_def)
  note L = run_link_region [OF assms(1,2) b(1,2), of ?c a ?s1]
  show ?thesis
  proof (cases "a \<in> fst ` set es")
    case True
    let ?s' = "(after Free (?s1\<lparr>errno := EBUSY\<rparr>))\<lparr>regions := (regions ?s1)(?p := None)\<rparr>"
    have "run_state (link_region n ?p a) ?s1 = (Busy, ?s1)" using L True b(3) by simp
    then have "run_state (cr_exclude_on n a sz f g) s = (Returns (-1), ?s')"
      using b by (simp add: cr_exclude_on_def)
    moreover have "excludes ?s' ps es" by (rule excludes_same [OF assms(1)]) (use b(2) in auto)
    moreover have "calm s ?s'" by (simp add: calm_def faults_def)
    ultimately show ?thesis using True by auto
  next
    case False
    then obtain s2 where 2: "run_state (link_region n ?p a) ?s1 = (Linked, s2)" "calm ?s1 s2"
        "excludes s2 (ps @ [?p]) (es @ [exclusion_of ?c])"
      using L b(3) by auto
    have "obliging s2" using assms(4) 2(2) by (simp add: obliging_def can_open_def calm_def)
    then obtain s3 where 3: "run_state cr_mm_exclusion_init s2 = (Returns 0, s3)" "calm s2 s3"
        "regions s3 = regions s2" "first_mm_region_excluded s3 = first_mm_region_excluded s2"
      using run_init_ready by blast
    have "run_state (cr_exclude_on n a sz f g) s = (Returns 0, s3)"
      using b 2(1) 3(1) by (simp add: cr_exclude_on_def)
    moreover have "excludes s3 (ps @ [?p]) (es @ [(a, sz, f, g)])"
      using excludes_same [OF 2(3) 3(3,4)] by (simp add: exclusion_of_def)
    moreover have "calm s s3" using calm_trans [OF c1 calm_trans [OF 2(2) 3(2)]] .
    ultimately show ?thesis using False by auto
  qed
qed

section \<open>Refinement\<close>

datatype exclusion_op = On "64 word" "64 word" int int | Off "64 word"

fun do_op :: "nat \<Rightarrow> exclusion_op \<Rightarrow> ('a excl_scheme, int outcome) state" where
  "do_op n (On a sz f g) = cr_exclude_on n a sz f g"
| "do_op n (Off a) = cr_exclude_off n a"

fun do_ops :: "nat \<Rightarrow> exclusion_op list \<Rightarrow> ('a excl_scheme, int outcome list) state" where
  "do_ops n [] = return []"
| "do_ops n (x # xs) = do { r \<leftarrow> do_op n x; rs \<leftarrow> do_ops n xs; return (r # rs) }"

text \<open>The specification: a list of exclusions without two of the same address.\<close>

fun op_spec :: "exclusion_op \<Rightarrow> exclusion list \<Rightarrow> int \<times> exclusion list" where
  "op_spec (On a sz f g) es = (if a \<in> fst ` set es then (-1, es) else (0, es @ [(a, sz, f, g)]))"
| "op_spec (Off a) es = (if a \<in> fst ` set es then 0 else -1, filter (\<lambda>e. fst e \<noteq> a) es)"

fun ops_spec :: "exclusion_op list \<Rightarrow> exclusion list \<Rightarrow> int list \<times> exclusion list" where
  "ops_spec [] es = ([], es)"
| "ops_spec (x # xs) es =
     (let (r, es') = op_spec x es; (rs, es'') = ops_spec xs es' in (r # rs, es''))"

text \<open>The allocator behaves at each call of \<^verbatim>\<open>cr_exclude_on\<close> in the sequence.\<close>

fun blocks_ok :: "nat \<Rightarrow> exclusion_op list \<Rightarrow> 'a excl_scheme \<Rightarrow> bool" where
  "blocks_ok n [] s \<longleftrightarrow> True"
| "blocks_ok n (x # xs) s \<longleftrightarrow> (case x of On _ _ _ _ \<Rightarrow> block_ok s | Off _ \<Rightarrow> True) \<and>
     blocks_ok n xs (snd (run_state (do_op n x) s))"

lemma run_do_op:
  assumes "excludes s ps es" and "length es \<le> n" and "case x of On _ _ _ _ \<Rightarrow> block_ok s | Off _ \<Rightarrow> True"
    and "obliging s"
  shows "\<exists>s' ps'. run_state (do_op n x) s = (Returns (fst (op_spec x es)), s') \<and>
    excludes s' ps' (snd (op_spec x es)) \<and> calm s s'"
proof -
  have "length ps \<le> n" using assms(1,2) by (auto simp: excludes_def table_def)
  note le = this
  show ?thesis
  proof (cases x)
    case (On a sz f g)
    then show ?thesis
      using run_exclude_on [OF assms(1) le, of a sz f g] assms(3,4) by (cases "a \<in> fst ` set es") simp_all
  next
    case (Off a)
    then show ?thesis using run_exclude_off [OF assms(1) le, of a] by simp
  qed
qed

lemma length_op_spec: "length (snd (op_spec x es)) \<le> Suc (length es)"
  by (cases x) (auto intro: le_SucI)


text \<open>A process whose allocator hands out one block after the other.\<close>

definition bump :: "event list \<Rightarrow> req \<Rightarrow> resp" where
  "bump tr q = (case q of Malloc _ \<Rightarrow> Resp (1 + int (length tr)) None NoData | _ \<Rightarrow> Resp 0 None NoData)"

definition excl_start :: excl where
  "excl_start = \<lparr>answers = bump, trace = [], errno = 0, cb_info = None, thread_running = False, current_hook = None,
     mutex_locked = False, regions = Map.empty, first_mm_region_excluded = 0, children = Map.empty, first_child = 0,
     initialized = True, pipefd = (0, 0), checkpoint_cb_at = 11, restart_cb_at = 12\<rparr>"

lemma excl_start_ok: "excludes excl_start [] []" "obliging excl_start"
  by (simp_all add: excl_start_def excludes_def table_def obliging_def can_open_def services_path_def bump_def)


section \<open>Checkpoint and restart of an application with exclusions\<close>

definition stamp :: "int \<Rightarrow> cr_mm_region_excluded \<Rightarrow> cr_mm_region_excluded" where
  "stamp me c = c\<lparr>region := (region c)\<lparr>mr_pid := me\<rparr>\<rparr>"

lemma stamp_simps [simp]:
  "region_next (stamp me c) = region_next c" "exclusion_of (stamp me c) = exclusion_of c"
  by (simp_all add: stamp_def exclusion_of_def)

text \<open>\<open>s'\<close> differs from \<open>s\<close> in the region list, \<open>errno\<close> and a history without service calls or faults.\<close>

definition hushed :: "'a excl_scheme \<Rightarrow> 'a excl_scheme \<Rightarrow> bool" where
  "hushed s s' \<longleftrightarrow> answers s' = answers s \<and> children s' = children s \<and> first_child s' = first_child s \<and>
     first_mm_region_excluded s' = first_mm_region_excluded s \<and> ksys_calls (trace s') = ksys_calls (trace s) \<and>
     kills (trace s') = kills (trace s) \<and> faults (trace s') = faults (trace s)"

lemma run_stamp_regions:
  assumes "regs.path (regions s) p ps" and "distinct ps" and "length ps \<le> n"
    and "\<And>tr. resp_ret (answers s tr Getpid) = me"
  shows "\<exists>s'. run_state (stamp_regions n p) s = (Returns (), s') \<and> hushed s s' \<and>
    regions s' = (\<lambda>q. if q \<in> set ps then map_option (stamp me) (regions s q) else regions s q)"
  using assms
proof (induction ps arbitrary: p n s)
  case Nil
  then show ?case by (cases n) (auto simp: hushed_def)
next
  case (Cons q ps)
  then obtain m c where n: "n = Suc m" and c: "p = q" "q \<noteq> 0" "regions s q = Some c"
      "regs.path (regions s) (region_next c) ps"
    by (cases n) auto
  let ?s1 = "(after Getpid s)\<lparr>regions := (regions s)(q \<mapsto> stamp me c)\<rparr>"
  have "regs.path (regions ?s1) (region_next c) ps" using c(4) Cons.prems(2) by simp
  from Cons.IH [OF this, of m] Cons.prems n obtain s' where
    s': "run_state (stamp_regions m (region_next c)) ?s1 = (Returns (), s')" "hushed ?s1 s'"
      "regions s' = (\<lambda>q. if q \<in> set ps then map_option (stamp me) (regions ?s1 q) else regions ?s1 q)"
    by auto
  have "run_state (stamp_regions n p) s = (Returns (), s')"
    using n c(1,2,3) s'(1) Cons.prems(4) by (simp add: stamp_def)
  moreover have "regions s' = (\<lambda>r. if r \<in> set (q # ps) then map_option (stamp me) (regions s r) else regions s r)"
    using s'(3) c(3) Cons.prems(2) by (auto simp: fun_eq_iff)
  moreover have "hushed s s'" using s'(2) by (simp add: hushed_def faults_def)
  ultimately show ?case by blast
qed

lemma region_list_path:
  "regs.path h p ps \<Longrightarrow> length ps \<le> n \<Longrightarrow> region_list n h p = map (\<lambda>q. region (the (h q))) ps"
proof (induction ps arbitrary: p n)
  case Nil
  then show ?case by (cases n) auto
next
  case (Cons q ps)
  then show ?case by (cases n) auto
qed

text \<open>Doing something for each child, as long as it leaves the lists alone, is a plain loop over the pids.\<close>

definition each :: "(int \<Rightarrow> ('a os_scheme, int) state) \<Rightarrow> int list \<Rightarrow> ('a os_scheme, unit) state" where
  "each f pids = forM (\<lambda>p. do { f p; return () }) pids"

lemma run_children_do:
  assumes "kids.path (children s) p ps" and "length ps \<le> n" and "\<And>pid. framed (f pid)"
  shows "run_state (children_do f n p) s =
    (Returns (), snd (run_state (each f (map (\<lambda>q. child_pid (the (children s q))) ps)) s))"
  using assms(1,2)
proof (induction ps arbitrary: p n s)
  case Nil
  then show ?case by (cases n) (auto simp: each_def)
next
  case (Cons q ps)
  then obtain m c where n: "n = Suc m" and c: "p = q" "q \<noteq> 0" "children s q = Some c"
      "kids.path (children s) (child_next c) ps"
    by (cases n) auto
  obtain x s1 where 1: "run_state (f (child_pid c)) s = (x, s1)" by fastforce
  have k: "children s1 = children s" using frame_excl(3) [OF framedD [OF assms(3) 1]] .
  show ?case using n c 1 Cons.IH [of s1 "child_next c" m] Cons.prems(2) k by (simp add: each_def)
qed

lemma framed_execute [framed_intros]:
  "framed (cr_execute_chkpt_callbacks p b)" "framed (cr_execute_restart_callbacks p)"
  "framed (cr_execute_continue_callbacks p b)"
  unfolding cr_execute_chkpt_callbacks_def cr_execute_restart_callbacks_def cr_execute_continue_callbacks_def
    cr_detect_callbacks_def
  by (intro framed_intros)+

definition child_pids :: "'a excl_scheme \<Rightarrow> int list \<Rightarrow> int list" where
  "child_pids s cs = map (\<lambda>q. child_pid (the (children s q))) cs"

text \<open>
  C16.  The checkpoint callback of the library.  With no exclusion it does nothing at all.  Otherwise
  it tells the kernel, in one request, exactly the excluded regions in their order, each with the
  pid of the calling process, then runs the checkpoint callbacks of every child on the list of
  children once, in order, and returns the result of the request.
\<close>

theorem checkpoint_cb_excludes:
  assumes "excludes s ps es" and "length ps \<le> n"
    and "kids.path (children s) (first_child s) cs" and "length cs \<le> n"
    and "can_open s" and me: "\<And>tr. resp_ret (answers s tr Getpid) = me"
  shows "if es = [] then run_state (cr_mm_exclusion_checkpoint_cb n) s = (Returns 0, s)
    else \<exists>r s1 s'. run_state (cr_mm_exclusion_checkpoint_cb n) s = (Returns r, s') \<and>
      ksys_calls (trace s1) = ksys_calls (trace s) @
        [(KSYS_APP_CR_EXCLUDE, DRegions (map (\<lambda>(a, sz, _, _). \<lparr>mr_pid = me, mr_addr = a, mr_size = sz\<rparr>) es), r)] \<and>
      kills (trace s1) = kills (trace s) \<and> faults (trace s1) = faults (trace s) \<and>
      s' = snd (run_state (each (\<lambda>p. cr_execute_chkpt_callbacks p False) (child_pids s cs)) s1)"
proof (cases "es = []")
  case True
  then show ?thesis using assms(1) by (auto simp: excludes_def table_def cr_mm_exclusion_checkpoint_cb_def)
next
  case False
  let ?f = "first_mm_region_excluded s"
  have e: "regs.path (regions s) ?f ps" "distinct ps" "es = table (regions s) ps" using assms(1) by (auto simp: excludes_def)
  have f: "?f \<noteq> 0" using e(1,3) False by (metis regs.path_null table_def list.simps(8))
  obtain s0 where 0: "run_state (stamp_regions n ?f) s = (Returns (), s0)" "hushed s s0"
      "regions s0 = (\<lambda>q. if q \<in> set ps then map_option (stamp me) (regions s q) else regions s q)"
    using run_stamp_regions [OF e(1,2) assms(2) me] by blast
  have "regs.path (regions s0) ?f ps"
    using e(1) regs.path_cong [of ps "regions s0" "regions s"] by (auto simp: 0(3) option.map_comp comp_def)
  then have rl: "region_list n (regions s0) ?f = map (\<lambda>(a, sz, _, _). \<lparr>mr_pid = me, mr_addr = a, mr_size = sz\<rparr>) es"
    (is "_ = ?regs")
    using region_list_path [OF _ assms(2)] regs.path_dom [OF e(1)]
    by (auto simp: 0(3) e(3) table_def exclusion_of_def stamp_def)
  obtain r t where t: "run_state (call_service KSYS_APP_CR_EXCLUDE (DRegions ?regs)) s0 = (r, t)" by fastforce
  define s1 where "s1 = (if r \<noteq> 0 then t\<lparr>trace := trace t @ [Perror ''cr_exclude'' (errno t)]\<rparr> else t)"
  have h: "answers s0 = answers s" "ksys_calls (trace s0) = ksys_calls (trace s)" "kills (trace s0) = kills (trace s)"
      "faults (trace s0) = faults (trace s)" "first_child s0 = first_child s" "children s0 = children s"
    using 0(2) by (simp_all add: hushed_def)
  have tr: "ksys_calls (trace t) = ksys_calls (trace s) @ [(KSYS_APP_CR_EXCLUDE, DRegions ?regs, r)]"
      "kills (trace t) = kills (trace s)" "faults (trace t) = faults (trace s)" "frame s0 t"
    using t h assms(5) framedD [OF framed_call_service t]
    by (auto simp: call_service_def run_call Let_def can_open_def services_path_def faults_def)
  have k: "children s1 = children s" "first_child s1 = first_child s"
    using frame_excl(3,4) [OF tr(4)] h by (simp_all add: s1_def)
  have "run_state (cr_mm_exclusion_checkpoint_cb n) s =
      (Returns r, snd (run_state (each (\<lambda>p. cr_execute_chkpt_callbacks p False) (child_pids s cs)) s1))"
    using f 0(1) t rl run_children_do [of s1 "first_child s1" cs n, OF _ _ framed_execute(1)] assms(3,4) k
    by (simp add: cr_mm_exclusion_checkpoint_cb_def s1_def child_pids_def split: if_splits)
  moreover have "ksys_calls (trace s1) = ksys_calls (trace t)" "kills (trace s1) = kills (trace t)"
      "faults (trace s1) = faults (trace t)"
    by (simp_all add: s1_def faults_def)
  ultimately show ?thesis using False tr(1,2,3) by auto
qed

text \<open>A process with one exclusion and no children.\<close>

definition excl_one :: excl where
  "excl_one = excl_start\<lparr>regions := [7 \<mapsto> \<lparr>region = \<lparr>mr_pid = 0, mr_addr = 16, mr_size = 4\<rparr>, region_next = 0,
     excl_func = 5, excl_arg = 6\<rparr>], first_mm_region_excluded := 7\<rparr>"

lemma excl_one_ok:
  "excludes excl_one [7] [(16, 4, 5, 6)]" "kids.path (children excl_one) (first_child excl_one) []" "can_open excl_one"
  "resp_ret (answers excl_one tr Getpid) = 0"
  by (simp_all add: excl_one_def excl_start_def excludes_def table_def exclusion_of_def can_open_def services_path_def
    bump_def)

theorem checkpoint_cb_excludes_witness:
  "\<exists>r s1 s'. run_state (cr_mm_exclusion_checkpoint_cb 1) excl_one = (Returns r, s') \<and>
    ksys_calls (trace s1) = [(KSYS_APP_CR_EXCLUDE, DRegions [\<lparr>mr_pid = 0, mr_addr = 16, mr_size = 4\<rparr>], r)] \<and> s' = s1"
proof -
  have "ksys_calls (trace excl_one) = []" by (simp add: excl_one_def excl_start_def)
  then show ?thesis
    using checkpoint_cb_excludes [OF excl_one_ok(1) _ excl_one_ok(2) _ excl_one_ok(3,4), of 1]
    by (simp add: each_def child_pids_def) blast
qed

text \<open>The last of the results that is not zero.\<close>

definition last_failure :: "int \<Rightarrow> int list \<Rightarrow> int" where
  "last_failure ret rs = foldl (\<lambda>a r. if r \<noteq> 0 then r else a) ret rs"

definition with_func :: "exclusion list \<Rightarrow> (int \<times> int) list" where
  "with_func es = filter (\<lambda>fg. fst fg \<noteq> 0) (map (\<lambda>(_, _, f, g). (f, g)) es)"

lemma with_func_Cons [simp]:
  "with_func ((a, sz, f, g) # es) = (if f = 0 then with_func es else (f, g) # with_func es)"
  by (simp add: with_func_def)

lemma run_call_regions:
  assumes "regs.path (regions s) p ps" and "length ps \<le> n"
  shows "\<exists>rs s'. run_state (call_regions n p ret) s = (Returns (last_failure ret rs), s') \<and> frame s s' \<and>
    length rs = length (with_func (table (regions s) ps)) \<and>
    cb_calls (trace s') = cb_calls (trace s) @ map2 (\<lambda>(f, g) r. (f, g, r)) (with_func (table (regions s) ps)) rs \<and>
    kills (trace s') = kills (trace s) \<and> faults (trace s') = faults (trace s)"
  using assms
proof (induction ps arbitrary: p n s ret)
  case Nil
  then show ?case by (cases n) (auto simp: last_failure_def with_func_def table_def)
next
  case (Cons q ps)
  then obtain m c where n: "n = Suc m" and c: "p = q" "q \<noteq> 0" "regions s q = Some c"
      "regs.path (regions s) (region_next c) ps"
    by (cases n) auto
  have t: "with_func (table (regions s) (q # ps)) =
      (if excl_func c = 0 then with_func (table (regions s) ps)
       else (excl_func c, excl_arg c) # with_func (table (regions s) ps))"
    using c(3) by (simp add: table_def exclusion_of_def)
  show ?case
  proof (cases "excl_func c = 0")
    case True
    then show ?thesis
      using Cons.IH [OF c(4), of m ret] Cons.prems(2) n c(1,2,3) t by simp
  next
    case False
    let ?q = "Callback (excl_func c) (excl_arg c)"
    let ?x = "resp_ret (answers s (trace s) ?q)"
    let ?ret = "if ?x \<noteq> 0 then ?x else ret"
    have "regs.path (regions (after ?q s)) (region_next c) ps" using c(4) by simp
    from Cons.IH [OF this, of m ?ret] Cons.prems(2) n obtain rs s' where
      IH: "run_state (call_regions m (region_next c) ?ret) (after ?q s) = (Returns (last_failure ?ret rs), s')"
        "frame (after ?q s) s'" "length rs = length (with_func (table (regions s) ps))"
        "cb_calls (trace s') = cb_calls (trace s) @ [(excl_func c, excl_arg c, ?x)] @
           map2 (\<lambda>(f, g) r. (f, g, r)) (with_func (table (regions s) ps)) rs"
        "kills (trace s') = kills (trace s)" "faults (trace s') = faults (trace s)"
      by (fastforce simp: faults_def)
    have "run_state (call_regions n p ret) s = (Returns (last_failure ret (?x # rs)), s')"
      using n c(1,2,3) False IH(1) by (simp add: last_failure_def)
    moreover have "frame s s'" using frame_trans [OF frame_after IH(2)] .
    ultimately show ?thesis using False IH(3-6) t by (intro exI [of _ "?x # rs"] exI [of _ s']) simp
  qed
qed

text \<open>
  C17.  The restart callback of the library calls the function of every exclusion that has one, in
  order, even after one of them failed, returns the last failure (0 when there is none), and then
  runs the restart callbacks of every child on the list of children once, in order.
\<close>

theorem restart_cb_calls_all:
  assumes "excludes s ps es" and "length ps \<le> n"
    and "kids.path (children s) (first_child s) cs" and "length cs \<le> n"
  shows "\<exists>rs s1 s'. run_state (cr_mm_exclusion_restart_cb n) s = (Returns (last_failure 0 rs), s') \<and>
    length rs = length (with_func es) \<and>
    cb_calls (trace s1) = cb_calls (trace s) @ map2 (\<lambda>(f, g) r. (f, g, r)) (with_func es) rs \<and>
    kills (trace s1) = kills (trace s) \<and> faults (trace s1) = faults (trace s) \<and>
    s' = snd (run_state (each cr_execute_restart_callbacks (child_pids s cs)) s1)"
proof -
  have e: "regs.path (regions s) (first_mm_region_excluded s) ps" "table (regions s) ps = es"
    using assms(1) by (auto simp: excludes_def)
  obtain rs s1 where 1: "run_state (call_regions n (first_mm_region_excluded s) 0) s = (Returns (last_failure 0 rs), s1)"
      "frame s s1" "length rs = length (with_func es)"
      "cb_calls (trace s1) = cb_calls (trace s) @ map2 (\<lambda>(f, g) r. (f, g, r)) (with_func es) rs"
      "kills (trace s1) = kills (trace s)" "faults (trace s1) = faults (trace s)"
    using run_call_regions [OF e(1) assms(2), of 0] e(2) by auto
  have k: "children s1 = children s" "first_child s1 = first_child s" using frame_excl(3,4) [OF 1(2)] .
  have "run_state (cr_mm_exclusion_restart_cb n) s = (Returns (last_failure 0 rs),
      snd (run_state (each cr_execute_restart_callbacks (child_pids s cs)) s1))"
    using 1(1) run_children_do [of s1 "first_child s1" cs n, OF _ _ framed_execute(2)] assms(3,4) k
    by (simp add: cr_mm_exclusion_restart_cb_def child_pids_def)
  then show ?thesis using 1 by blast
qed

theorem restart_cb_calls_all_witness:
  "\<exists>r s'. run_state (cr_mm_exclusion_restart_cb 1) excl_one = (Returns r, s') \<and> cb_calls (trace s') = [(5, 6, r)]"
proof -
  have "cb_calls (trace excl_one) = []" by (simp add: excl_one_def excl_start_def)
  with restart_cb_calls_all [OF excl_one_ok(1) _ excl_one_ok(2), of 1] obtain rs s' where
    "run_state (cr_mm_exclusion_restart_cb 1) excl_one = (Returns (last_failure 0 rs), s')" "length rs = 1"
    "cb_calls (trace s') = map2 (\<lambda>(f, g) r. (f, g, r)) [(5, 6)] rs"
    by (auto simp: each_def child_pids_def with_func_def)
  moreover from this(2) obtain r where "rs = [r]" by (auto simp: length_Suc_conv)
  ultimately show ?thesis by (auto simp: last_failure_def)
qed

section \<open>Keeping track of children\<close>

datatype child_op = Forked int | Ended int

fun do_child_op :: "nat \<Rightarrow> child_op \<Rightarrow> ('a excl_scheme, unit outcome) state" where
  "do_child_op n (Forked pid) = add_child pid"
| "do_child_op n (Ended pid) = handle_sigchild n pid"

fun do_child_ops :: "nat \<Rightarrow> child_op list \<Rightarrow> ('a excl_scheme, unit outcome list) state" where
  "do_child_ops n [] = return []"
| "do_child_ops n (x # xs) = do { r \<leftarrow> do_child_op n x; rs \<leftarrow> do_child_ops n xs; return (r # rs) }"

text \<open>What the list of children holds when it was empty at first: one child at most.\<close>

fun tracked :: "int option \<Rightarrow> child_op list \<Rightarrow> int option" where
  "tracked k [] = k"
| "tracked k (Forked pid # xs) = tracked (Some pid) xs"
| "tracked k (Ended pid # xs) = tracked (if k = Some pid then None else k) xs"

definition child_list :: "'a excl_scheme \<Rightarrow> int list \<Rightarrow> bool" where
  "child_list s pids \<longleftrightarrow> (\<exists>cs. kids.path (children s) (first_child s) cs \<and> pids = child_pids s cs)"

definition child_block_ok :: "'a excl_scheme \<Rightarrow> bool" where
  "child_block_ok s \<longleftrightarrow> resp_ret (answers s (trace s) (Malloc 16)) \<noteq> 0 \<and>
     children s (resp_ret (answers s (trace s) (Malloc 16))) = None"

fun child_blocks_ok :: "nat \<Rightarrow> child_op list \<Rightarrow> 'a excl_scheme \<Rightarrow> bool" where
  "child_blocks_ok n [] s \<longleftrightarrow> True"
| "child_blocks_ok n (x # xs) s \<longleftrightarrow> (case x of Forked _ \<Rightarrow> child_block_ok s | Ended _ \<Rightarrow> True) \<and>
     child_blocks_ok n xs (snd (run_state (do_child_op n x) s))"

lemma child_list_Nil: "child_list s [] \<longleftrightarrow> first_child s = 0"
  by (auto simp: child_list_def child_pids_def)

lemma child_list_one:
  "child_list s [pid] \<longleftrightarrow> first_child s \<noteq> 0 \<and> children s (first_child s) = Some \<lparr>child_pid = pid, child_next = 0\<rparr>"
proof
  assume "child_list s [pid]"
  then obtain c where "kids.path (children s) (first_child s) [c]" "pid = child_pid (the (children s c))"
    by (auto simp: child_list_def child_pids_def)
  then show "first_child s \<noteq> 0 \<and> children s (first_child s) = Some \<lparr>child_pid = pid, child_next = 0\<rparr>" by auto
next
  assume "first_child s \<noteq> 0 \<and> children s (first_child s) = Some \<lparr>child_pid = pid, child_next = 0\<rparr>"
  then show "child_list s [pid]"
    unfolding child_list_def by (intro exI [of _ "[first_child s]"]) (simp add: child_pids_def)
qed

lemma child_op_step:
  assumes "child_list s (case k of None \<Rightarrow> [] | Some p \<Rightarrow> [p])" and "initialized s" and "0 < n"
    and "case x of Forked _ \<Rightarrow> child_block_ok s | Ended _ \<Rightarrow> True"
  shows "\<exists>s'. run_state (do_child_op n x) s = (Returns (), s') \<and> initialized s' \<and>
    child_list s' (case tracked k [x] of None \<Rightarrow> [] | Some p \<Rightarrow> [p]) \<and> faults (trace s') = faults (trace s)"
proof (cases x)
  case (Forked pid)
  let ?p = "resp_ret (answers s (trace s) (Malloc 16))"
  have b: "?p \<noteq> 0" "children s ?p = None" using assms(4) Forked by (simp_all add: child_block_ok_def)
  let ?s' = "(after (Malloc 16) s)\<lparr>children := (children s)(?p \<mapsto> \<lparr>child_pid = pid, child_next = 0\<rparr>), first_child := ?p\<rparr>"
  have "run_state (add_child pid) s = (Returns (), ?s')"
    using assms(1,2) b
    by (cases k) (simp_all add: add_child_def cr_mm_exclusion_init_def link_child_def child_list_Nil child_list_one)
  then show ?thesis using Forked assms(2) b(1) by (simp add: child_list_one faults_def)
next
  case (Ended pid)
  obtain m where n: "n = Suc m" using assms(3) by (cases n) auto
  have z: "run_state (remove_child_from m p 0 pid) s = (Returns (), s)" for p by (cases m) simp_all
  show ?thesis
  proof (cases k)
    case None
    then show ?thesis using Ended assms(1,2) n
      by (simp add: handle_sigchild_def remove_child_def child_list_Nil)
  next
    case (Some p)
    then have k: "first_child s \<noteq> 0" "children s (first_child s) = Some \<lparr>child_pid = p, child_next = 0\<rparr>"
      using assms(1) by (simp_all add: child_list_one)
    show ?thesis
    proof (cases "p = pid")
      case True
      then show ?thesis using Some Ended assms(2) n k
        by (simp add: handle_sigchild_def remove_child_def child_list_Nil faults_def)
    next
      case False
      then show ?thesis using Some Ended assms(1,2) n k z
        by (simp add: handle_sigchild_def remove_child_def)
    qed
  qed
qed

lemma tracked_Cons: "tracked k (x # xs) = tracked (tracked k [x]) xs"
  by (cases x) simp_all

text \<open>
  C18.  The list of children never holds more than one child: \<^verbatim>\<open>add_child\<close> puts a new child in the
  place of the first one instead of before it.  Over any sequence of forks and ends of children every
  call returns without a fault, and the list holds the child forked last, unless its end was reported
  since; all other living children are forgotten, so no checkpoint or restart reaches them.
\<close>

theorem children_only_last:
  assumes "child_list s (case k of None \<Rightarrow> [] | Some p \<Rightarrow> [p])" and "initialized s" and "0 < n"
    and "child_blocks_ok n ops s"
  shows "\<exists>s'. run_state (do_child_ops n ops) s = (replicate (length ops) (Returns ()), s') \<and>
    child_list s' (case tracked k ops of None \<Rightarrow> [] | Some p \<Rightarrow> [p]) \<and> faults (trace s') = faults (trace s)"
  using assms
proof (induction ops arbitrary: s k)
  case Nil
  then show ?case by simp
next
  case (Cons x xs)
  then obtain s1 where 1: "run_state (do_child_op n x) s = (Returns (), s1)" "initialized s1"
      "child_list s1 (case tracked k [x] of None \<Rightarrow> [] | Some p \<Rightarrow> [p])" "faults (trace s1) = faults (trace s)"
    using child_op_step [of s k n x] by auto
  from Cons.IH [OF 1(3,2)] Cons.prems(3,4) 1(1) obtain s2 where
    "run_state (do_child_ops n xs) s1 = (replicate (length xs) (Returns ()), s2)"
    "child_list s2 (case tracked (tracked k [x]) xs of None \<Rightarrow> [] | Some p \<Rightarrow> [p])"
    "faults (trace s2) = faults (trace s1)" by auto
  then show ?case using 1(1,4) by (simp add: tracked_Cons [of k x xs])
qed

theorem children_only_last_witness:
  "\<exists>rs s'. run_state (do_child_ops 1 [Forked 20, Forked 21, Ended 21]) excl_start = (rs, s') \<and> child_list s' []"
proof -
  have "child_blocks_ok 1 [Forked 20, Forked 21, Ended 21] excl_start"
    by (simp add: child_block_ok_def add_child_def cr_mm_exclusion_init_def link_child_def excl_start_def bump_def after_def
      Let_def)
  moreover have "child_list excl_start (case None of None \<Rightarrow> [] | Some p \<Rightarrow> [p])" and "initialized excl_start"
    by (simp_all add: child_list_Nil excl_start_def)
  ultimately show ?thesis
    using children_only_last [of excl_start None 1 "[Forked 20, Forked 21, Ended 21]"] by (simp del: do_child_ops.simps) blast
qed

section \<open>Failed initialisation and exit\<close>

text \<open>The tools on a kernel without Kerrighed: there is no services file.\<close>

definition no_services :: "'a os_scheme \<Rightarrow> bool" where
  "no_services s \<longleftrightarrow> (\<forall>tr. resp_ret (answers s tr services_path) = -1 \<and>
     resp_ret (answers s tr (Malloc (16 + 3 * 40 * 24))) \<noteq> 0 \<and> (\<forall>g. resp_ret (answers s tr (Sigaction g)) = 0))"

lemma run_init_no_services:
  assumes "no_services s" and "\<not> initialized s"
  shows "\<exists>s'. run_state cr_mm_exclusion_init s = (Returns (-1), s') \<and> regions s' = regions s \<and>
    first_mm_region_excluded s' = first_mm_region_excluded s"
proof -
  have "\<And>tr. resp_ret (answers s tr services_path) = -1" "\<And>tr. resp_ret (answers s tr (Malloc 2896)) \<noteq> 0"
      "\<And>tr g. resp_ret (answers s tr (Sigaction g)) = 0"
    using assms(1) by (simp_all add: no_services_def)
  then show ?thesis using assms(2)
    by (simp add: cr_mm_exclusion_init_def cr_callback_init_def initialize_cb_info_def run_malloc
      initialize_signal_handlers_def declare_cb_def application_set_userdata_def call_service_def run_call Let_def
      free_info_memory_def after_def)
qed

lemma run_get_dangling:
  "regions s p = None \<Longrightarrow> run_state (get_region p) s =
    (\<lparr>region = \<lparr>mr_pid = 0, mr_addr = 0, mr_size = 0\<rparr>, region_next = 0, excl_func = 0, excl_arg = 0\<rparr>,
     s\<lparr>trace := trace s @ [Fault]\<rparr>)"
  by (simp add: get_region_def)

lemma exclude_off_dangling:
  assumes "regions s p = None" and "p \<noteq> 0" and "first_mm_region_excluded s = p" and "0 < n"
  shows "Fault \<in> set (drop (length (trace s)) (trace (snd (run_state (cr_exclude_off n b) s))))"
proof -
  obtain m where "n = Suc m" using assms(4) by (cases n) auto
  then show ?thesis
    using assms(1-3)
    by (cases m; cases "b = 0")
      (simp_all add: cr_exclude_off_def run_get_dangling next_region_def free_region_def)
qed

lemma stamp_dangling:
  assumes "regions s p = None" and "p \<noteq> 0" and "0 < n"
  shows "Fault \<in> set (drop (length (trace s)) (trace (snd (run_state (stamp_regions n p) s))))"
proof -
  obtain m where "n = Suc m" using assms(3) by (cases n) auto
  then show ?thesis using assms(1,2) by (cases m) (simp_all add: run_get_dangling)
qed

text \<open>
  C19.  When the library cannot be initialised, as on a kernel without Kerrighed, the first
  \<^verbatim>\<open>cr_exclude_on\<close> returns the error and frees the region it has just put on the list without taking
  it off: the list starts with a dangling pointer, and the next \<^verbatim>\<open>cr_exclude_off\<close>, or the loop of
  the next checkpoint callback, reads freed memory.
\<close>

theorem failed_init_dangles:
  assumes "excludes s [] []" and "block_ok s" and "no_services s" and "\<not> initialized s" and "0 < n"
  shows "\<exists>s'. run_state (cr_exclude_on n a sz f g) s = (Returns (-1), s') \<and>
    first_mm_region_excluded s' \<noteq> 0 \<and> regions s' (first_mm_region_excluded s') = None \<and>
    (\<forall>b. Fault \<in> set (drop (length (trace s')) (trace (snd (run_state (cr_exclude_off n b) s'))))) \<and>
    Fault \<in> set (drop (length (trace s')) (trace (snd (run_state (stamp_regions n (first_mm_region_excluded s')) s'))))"
proof -
  let ?r = "answers s (trace s) (Malloc 48)"
  let ?p = "resp_ret ?r"
  let ?c = "\<lparr>region = \<lparr>mr_pid = 0, mr_addr = a, mr_size = sz\<rparr>, region_next = leftover ?r, excl_func = f, excl_arg = g\<rparr>"
  let ?s1 = "(after (Malloc 48) s)\<lparr>regions := (regions s)(?p \<mapsto> ?c), first_mm_region_excluded := ?p\<rparr>"
  have b: "?p \<noteq> 0" using assms(2) by (simp add: block_ok_def Let_def)
  have z: "first_mm_region_excluded s = 0" using assms(1) by (simp add: excludes_def)
  have "no_services ?s1" "\<not> initialized ?s1" using assms(3,4) by (simp_all add: no_services_def)
  from run_init_no_services [OF this] obtain s2 where
    2: "run_state cr_mm_exclusion_init ?s1 = (Returns (-1), s2)" "regions s2 = (regions s)(?p \<mapsto> ?c)"
      "first_mm_region_excluded s2 = ?p" by auto
  define s' where "s' = (after Free s2)\<lparr>regions := (regions s2)(?p := None)\<rparr>"
  have r: "run_state (cr_exclude_on n a sz f g) s = (Returns (-1), s')"
    using b z 2 by (simp add: cr_exclude_on_def link_region_def s'_def)
  have d: "first_mm_region_excluded s' = ?p" "regions s' ?p = None" using 2 by (simp_all add: s'_def)
  have "Fault \<in> set (drop (length (trace s')) (trace (snd (run_state (cr_exclude_off n b) s'))))" for b
    using exclude_off_dangling [OF d(2) b d(1) assms(5)] .
  moreover have "Fault \<in> set (drop (length (trace s')) (trace (snd (run_state (stamp_regions n ?p) s'))))"
    using stamp_dangling [OF d(2) b assms(5)] .
  ultimately show ?thesis using r d b by (intro exI [of _ s']) simp
qed

theorem failed_init_dangles_witness:
  "\<exists>s'. run_state (cr_exclude_on 1 16 4 0 0)
      (excl_start\<lparr>initialized := False, answers := \<lambda>tr q. if q = services_path then Resp (-1) (Some ENOENT) NoData else bump tr q\<rparr>)
      = (Returns (-1), s') \<and> regions s' (first_mm_region_excluded s') = None"
proof -
  let ?s = "excl_start\<lparr>initialized := False,
    answers := \<lambda>tr q. if q = services_path then Resp (-1) (Some ENOENT) NoData else bump tr q\<rparr>"
  have "excludes ?s [] []" "block_ok ?s" "no_services ?s" "\<not> initialized ?s" "0 < (1::nat)"
    by (simp_all add: excl_start_def excludes_def table_def block_ok_def no_services_def services_path_def bump_def
      leftover_def Let_def)
  from failed_init_dangles [OF this, of 16 4 0 0] show ?thesis by blast
qed

end
