(* ===== verification/Capset.thy ===== *)
theory Capset
  imports Libproc Getopt
begin

text \<open>
  \<^verbatim>\<open>tools/krgcapset.c\<close>: reading and changing the Kerrighed capabilities of a process.  Capability
  vectors are 32-bit words; the global \<^verbatim>\<open>supported_caps\<close> extends the process state.  The loop that
  reads the user's answer runs with fuel, one unit for each character.  The lemmas show that
  capability names denote the right bits, what a description does to a vector, and that the tool
  never gives away the right to change capabilities unless it was told to.
\<close>

unbundle bit_operations_syntax

section \<open>State and tables\<close>

record capset = os +
  supported_caps :: "32 word"

definition cap_text :: "string list" where
  "cap_text =
     [''CHANGE_KERRIGHED_CAP'', ''CAN_MIGRATE'', ''DISTANT_FORK'', ''FORK_DELAY'', ''CHECKPOINTABLE'',
      ''USE_REMOTE_MEMORY'', ''USE_INTRA_CLUSTER_KERSTREAMS'', ''USE_INTER_CLUSTER_KERSTREAMS'',
      ''USE_WORLD_VISIBLE_KERSTREAMS'', ''SEE_LOCAL_PROC_STAT'', ''DEBUG'', ''SYSCALL_EXIT_HOOK'']"

definition capset_long_options :: long_opts where
  "capset_long_options =
     [(''help'', no_argument, CHR ''h''), (''version'', no_argument, CHR ''v''),
      (''show'', no_argument, CHR ''s''), (''force'', no_argument, CHR ''f''),
      (''pid'', required_argument, CHR ''k''), (''permitted'', required_argument, CHR ''p''),
      (''effective'', required_argument, CHR ''e''),
      (''inheritable-permitted'', required_argument, CHR ''i''),
      (''inheritable-effective'', required_argument, CHR ''d'')]"

definition capset_short_options :: short_opts where
  "capset_short_options =
     [(CHR ''h'', no_argument), (CHR ''v'', no_argument), (CHR ''s'', no_argument), (CHR ''f'', no_argument),
      (CHR ''k'', required_argument), (CHR ''p'', required_argument), (CHR ''e'', required_argument),
      (CHR ''i'', required_argument), (CHR ''d'', required_argument)]"

section \<open>Printing\<close>

definition capset_version :: "string \<Rightarrow> string \<Rightarrow> ('a os_scheme, unit) state" where
  "capset_version VERSION program_name = emit (Out
     (program_name @ '' '' @ VERSION @
      ''\<newline>Copyright (C) 2001-2006, INRIA, Universite de Rennes 1, EDF\<newline>Copyright (C) 2010 Kerlabs.\<newline>'' @
      ''This is free software; see source for copying conditions. There is NO\<newline>'' @
      ''warranty; not even for MERCHANBILITY or FITNESS FOR A PARTICULAR PURPOSE.\<newline>\<newline>''))"

text \<open>The name of capability \<open>i\<close> and the column after it, from the column before it.\<close>

definition print_one :: "nat \<Rightarrow> nat \<Rightarrow> ('a os_scheme, nat) state" where
  "print_one column i = do {
     to_print \<leftarrow> return (length (cap_text ! i) + 2);
     column' \<leftarrow> (if column + to_print < 80 then
                  (if column \<noteq> 8 then do { emit (Out '', ''); return (column + to_print + 2) }
                   else do { emit (Out [CHR 0x09]); return (column + to_print) })
                else do { emit (Out (''\<newline>'' @ [CHR 0x09])); return (8 + to_print) });
     emit (Out (cap_text ! i));
     return column' }"

definition print_capability :: "32 word \<Rightarrow> ('a os_scheme, int) state" where
  "print_capability current_cap_vector = do {
     foldM (\<lambda>column i. if cap_raised current_cap_vector i then print_one column i else return column)
       8 [0..<CAP_SIZE];
     emit (Out ''\<newline>'');
     return 0 }"

text \<open>The conversion \<^verbatim>\<open>%o\<close>.\<close>

function show_oct :: "nat \<Rightarrow> string" where
  "show_oct n = (if n < 8 then [digit_char n] else show_oct (n div 8) @ [digit_char (n mod 8)])"
  by pat_completeness auto
termination by (relation "measure id") auto

declare show_oct.simps [simp del]

definition print_capabilities :: "krg_cap_t \<Rightarrow> ('a os_scheme, unit) state" where
  "print_capabilities caps = do {
     emit (Out (''Permitted Capabilities: 0'' @ show_oct (unat (krg_cap_getpermitted caps)) @ ''\<newline>''));
     print_capability (krg_cap_getpermitted caps);
     emit (Out (''Effective Capabilities: 0'' @ show_oct (unat (krg_cap_geteffective caps)) @ ''\<newline>''));
     print_capability (krg_cap_geteffective caps);
     emit (Out (''Inheritable Permitted Capabilities: 0'' @
                show_oct (unat (krg_cap_getinheritable_permitted caps)) @ ''\<newline>''));
     print_capability (krg_cap_getinheritable_permitted caps);
     emit (Out (''Inheritable Effective Capabilities: 0'' @
                show_oct (unat (krg_cap_getinheritable_effective caps)) @ ''\<newline>''));
     print_capability (krg_cap_getinheritable_effective caps);
     return () }"

section \<open>Descriptions\<close>

text \<open>The search loop: the first capability whose name is a prefix of the token.\<close>

definition match_cap :: "string \<Rightarrow> nat option" where
  "match_cap token =
     List.find (\<lambda>i. strncmp (cap_text ! i) token (length (cap_text ! i)) = 0) [0..<CAP_SIZE]"

definition construct_token :: "string \<Rightarrow> 32 word \<Rightarrow> ('a capset_scheme, 32 word) state" where
  "construct_token token res =
     (case match_cap token of
        Some i \<Rightarrow> return (res OR push_bit i 1)
      | None \<Rightarrow> do {
          emit (Err (''Unrecognized capability: '' @ token @ ''\<newline>''));
          emit (Err ''Authorized capability names are:\<newline>'');
          sup \<leftarrow> gets supported_caps;
          print_capability sup;
          return res })"

function construct_from :: "string \<Rightarrow> 32 word \<Rightarrow> ('a capset_scheme, 32 word) state" where
  "construct_from description res =
     (case strsep description (CHR '','') of (token, next) \<Rightarrow> do {
        res' \<leftarrow> construct_token token res;
        case next of None \<Rightarrow> return res' | Some d \<Rightarrow> construct_from d res' })"
  by pat_completeness auto
termination
  by (relation "measure (\<lambda>(d, _). length d)") (auto dest: strsep_length [OF sym])

declare construct_from.simps [simp del]

definition construct_capability :: "string \<Rightarrow> ('a capset_scheme, 32 word) state" where
  "construct_capability description = construct_from description 0"

definition update_capability :: "string \<Rightarrow> 32 word \<Rightarrow> ('a capset_scheme, 32 word) state" where
  "update_capability description oldcapability =
     (case description of
        c # d \<Rightarrow>
          if c = CHR ''+'' then do { tmp \<leftarrow> construct_capability d; return (tmp OR oldcapability) }
          else if c = CHR ''-'' then do { tmp \<leftarrow> construct_capability d; return (NOT tmp AND oldcapability) }
          else construct_capability description
      | [] \<Rightarrow> construct_capability description)"

section \<open>Reading and writing the capabilities of a process\<close>

definition get_caps_for_pid :: "int \<Rightarrow> krg_cap_t \<Rightarrow> ('a os_scheme, int \<times> krg_cap_t) state" where
  "get_caps_for_pid pid initial_caps =
     (if pid = -1 then do {
        r \<leftarrow> krg_father_capget initial_caps;
        e \<leftarrow> gets errno;
        (if fst r \<noteq> 0 then emit (Out (''Unable to get my father's capabilities res: '' @ show_int (fst r) @
           '', errno: '' @ show_int e @ ''\<newline>'')) else return ());
        return r }
      else do {
        r \<leftarrow> krg_pid_capget pid initial_caps;
        e \<leftarrow> gets errno;
        (if fst r \<noteq> 0 then emit (Out (''Unable to get capabilities of process '' @ show_int pid @ '' (res: '' @
           show_int (fst r) @ '', errno: '' @ show_int e @ ''))\<newline>'')) else return ());
        return r })"

definition set_caps_for_pid :: "int \<Rightarrow> krg_cap_t \<Rightarrow> ('a os_scheme, int) state" where
  "set_caps_for_pid pid initial_caps =
     (if pid = -1 then do {
        r \<leftarrow> krg_father_capset initial_caps;
        (if r \<noteq> 0 then emit (Out ''Unable to set my father's capabilities\<newline>'') else return ());
        return r }
      else do {
        r \<leftarrow> krg_pid_capset pid initial_caps;
        e \<leftarrow> gets errno;
        (if r \<noteq> 0 then emit (Out (''Unable to set the capabilities of process '' @ show_int pid @ '' (res is '' @
           show_int r @ '', errno '' @ show_int e @ '')\<newline>'')) else return ());
        return r })"

definition capset_usage :: "string \<Rightarrow> ('a capset_scheme, int) state" where
  "capset_usage program_name = do {
     emit (Out (
       ''Usage: '' @ program_name @ '' {-h|--help}\<newline>  or:  '' @ program_name @ '' {-v|--version}\<newline>  or:  '' @
       program_name @ '' [-k|--pid <pid>] [-s|--show]\<newline>  or:  '' @ program_name @
       '' [-f|--force] [-k|--pid <pid>] {SET {[+|-]CAPABILITY LIST | OCTAL VALUE}}... \<newline>'' @
       ''  -h, --help                   display this help and exit\<newline>'' @
       ''  -v, --version                display version informations and exit\<newline>'' @
       ''  -k, --pid <pid>              act on the task having pid <pid>\<newline>'' @
       ''                               (default: calling process)\<newline>'' @
       ''  -s, --show                   show the capabilities of the designated task\<newline>\<newline>'' @
       ''Change capabilities of the designated task.\<newline> SET is one of:\<newline>'' @
       ''  -e, --effective              set up effective capabilities\<newline>'' @
       ''  -p, --permitted              set up permitted capabilities\<newline>'' @
       ''  -d, --inheritable-effective  set up inheritable effective capabilities\<newline>'' @
       ''  -i, --inheritable-permitted  set up inheritable permitted capabilities\<newline>\<newline>''));
     sup \<leftarrow> gets supported_caps;
     r \<leftarrow> krg_cap_get_supported sup;
     modify (\<lambda>s. s\<lparr>supported_caps := snd r\<rparr>);
     (if fst r \<noteq> 0 then
        emit (Out ''WARNING: Capability list not available.You may not be running a Kerrighed kernel.\<newline>'')
      else do {
        emit (Out ''CAPABILITY LIST is a comma-separated listof capabilities amongst:\<newline>'');
        print_capability (snd r);
        return () });
     return 0 }"

section \<open>The command line\<close>

record capset_args =
  ca_pid :: int
  ca_show :: bool
  ca_set :: bool
  ca_force :: bool

text \<open>One option of the first pass; \<open>Inl\<close> is an exit.\<close>

definition first_option :: "string \<Rightarrow> string \<Rightarrow> capset_args \<Rightarrow> char \<times> string option \<Rightarrow>
    ('a capset_scheme, int + capset_args) state" where
  "first_option VERSION program_name a p = (case p of (c, arg) \<Rightarrow>
     if c = CHR ''v'' then do { capset_version VERSION program_name; return (Inl EXIT_SUCCESS) }
     else if c = CHR ''h'' then do { capset_usage program_name; return (Inl EXIT_SUCCESS) }
     else if c = CHR ''s'' then do {
       (if ca_show a then emit (Err ''Notice: -s (or --show) were specified twice\<newline>'') else return ());
       return (Inr (a\<lparr>ca_show := True\<rparr>)) }
     else if c = CHR ''k'' then
       (if ca_pid a \<noteq> -1 then do {
          emit (Err ''-k (or --pid) were specified twice\<newline>'');
          capset_usage program_name;
          return (Inl EXIT_FAILURE) }
        else return (Inr (a\<lparr>ca_pid := atoi (case arg of None \<Rightarrow> [] | Some t \<Rightarrow> t)\<rparr>)))
     else if c = CHR ''e'' \<or> c = CHR ''d'' \<or> c = CHR ''p'' \<or> c = CHR ''i'' then
       return (Inr (a\<lparr>ca_set := True\<rparr>))
     else if c = CHR ''f'' then do {
       (if ca_force a then emit (Err ''Notice: -f (or --force) were specified twice\<newline>'') else return ());
       return (Inr (a\<lparr>ca_force := True\<rparr>)) }
     else do { capset_usage program_name; return (Inl EXIT_FAILURE) })"

fun first_pass :: "string \<Rightarrow> string \<Rightarrow> capset_args \<Rightarrow> parsed \<Rightarrow> ('a capset_scheme, int + capset_args) state" where
  "first_pass VERSION program_name a [] = return (Inr a)"
| "first_pass VERSION program_name a (p # ps) = do {
     r \<leftarrow> first_option VERSION program_name a p;
     case r of Inl e \<Rightarrow> return (Inl e) | Inr a' \<Rightarrow> first_pass VERSION program_name a' ps }"

text \<open>The new value of one of the four vectors: a number, or a description of a change.\<close>

definition new_value :: "string \<Rightarrow> 32 word \<Rightarrow> ('a capset_scheme, 32 word) state" where
  "new_value optarg old =
     (case strtol optarg 0 of (cap_value, ignored) \<Rightarrow>
        if ignored \<noteq> [] then update_capability optarg old else return (word_of_int cap_value))"

text \<open>One option of the second pass, on the vectors and the flag \<^verbatim>\<open>changed_cap\<close>.\<close>

definition second_option :: "string \<Rightarrow> krg_cap_t \<times> bool \<Rightarrow> char \<times> string option \<Rightarrow>
    ('a capset_scheme, int + krg_cap_t \<times> bool) state" where
  "second_option program_name cb p = (case p of (c, arg) \<Rightarrow>
     let optarg = (case arg of None \<Rightarrow> [] | Some t \<Rightarrow> t); caps = fst cb in
     if c = CHR ''f'' \<or> c = CHR ''s'' \<or> c = CHR ''k'' then return (Inr cb)
     else if c = CHR ''e'' then do {
       v \<leftarrow> new_value optarg (krg_cap_effective caps);
       return (Inr (caps\<lparr>krg_cap_effective := v\<rparr>, True)) }
     else if c = CHR ''p'' then do {
       v \<leftarrow> new_value optarg (krg_cap_permitted caps);
       return (Inr (caps\<lparr>krg_cap_permitted := v\<rparr>, True)) }
     else if c = CHR ''i'' then do {
       v \<leftarrow> new_value optarg (krg_cap_inheritable_permitted caps);
       return (Inr (caps\<lparr>krg_cap_inheritable_permitted := v\<rparr>, True)) }
     else if c = CHR ''d'' then do {
       v \<leftarrow> new_value optarg (krg_cap_inheritable_effective caps);
       return (Inr (caps\<lparr>krg_cap_inheritable_effective := v\<rparr>, True)) }
     else do { capset_usage program_name; return (Inl EXIT_FAILURE) })"

fun second_pass :: "string \<Rightarrow> krg_cap_t \<times> bool \<Rightarrow> parsed \<Rightarrow> ('a capset_scheme, int + krg_cap_t \<times> bool) state" where
  "second_pass program_name cb [] = return (Inr cb)"
| "second_pass program_name cb (p # ps) = do {
     r \<leftarrow> second_option program_name cb p;
     case r of Inl e \<Rightarrow> return (Inl e) | Inr cb' \<Rightarrow> second_pass program_name cb' ps }"

definition getchar :: "('a os_scheme, int) state" where
  "getchar = do { r \<leftarrow> syscall Getchar; return (resp_ret r) }"

text \<open>The answers that end the loop: y, Y, n, N, end of file and newline.\<close>

definition answer_ends :: "int \<Rightarrow> bool" where
  "answer_ends a \<longleftrightarrow> a \<in> {121, 89, 110, 78, -1, 10}"

fun read_answer :: "nat \<Rightarrow> int \<Rightarrow> ('a os_scheme, int option) state" where
  "read_answer fuel a =
     (if answer_ends a then return (Some a)
      else case fuel of 0 \<Rightarrow> return None
      | Suc f \<Rightarrow> do { a' \<leftarrow> getchar; read_answer f a' })"

declare read_answer.simps [simp del]

text \<open>
  The confirmation.  The condition of the source contains the assignment \<^verbatim>\<open>answer = '\n' || use_default\<close>,
  whose value is always 1, so every answer but y and Y ends the program.
\<close>

definition confirm :: "nat \<Rightarrow> ('a os_scheme, bool option) state" where
  "confirm fuel = do {
     emit (Out ''Are you sure you want to loose the capability to change your capabilities (y/N)\<newline>'');
     a \<leftarrow> getchar;
     r \<leftarrow> read_answer fuel a;
     return (map_option (\<lambda>a. a = 121 \<or> a = 89) r) }"

definition keeps_change_cap :: "krg_cap_t \<Rightarrow> bool" where
  "keeps_change_cap caps \<longleftrightarrow>
     cap_raised (krg_cap_permitted caps) (cap_code CAP_CHANGE_KERRIGHED_CAP) \<and>
     cap_raised (krg_cap_effective caps) (cap_code CAP_CHANGE_KERRIGHED_CAP)"

text \<open>The end of a change: ask if needed, then set the capabilities.\<close>

definition finish_set :: "nat \<Rightarrow> capset_args \<Rightarrow> krg_cap_t \<Rightarrow> ('a os_scheme, int option) state" where
  "finish_set fuel a caps = do {
     ok \<leftarrow> (if \<not> ca_force a \<and> \<not> keeps_change_cap caps then confirm fuel else return (Some True));
     case ok of None \<Rightarrow> return None
     | Some b \<Rightarrow>
         if \<not> b then return (Some EXIT_SUCCESS)
         else do {
           res \<leftarrow> set_caps_for_pid (ca_pid a) caps;
           return (Some (if res \<noteq> 0 then EXIT_FAILURE else EXIT_SUCCESS)) } }"

text \<open>The variable \<^verbatim>\<open>initial_caps\<close> before anything was read into it.\<close>

definition uninit_caps :: "('a os_scheme, krg_cap_t) state" where
  "uninit_caps = do {
     e \<leftarrow> uninit; p \<leftarrow> uninit; ip \<leftarrow> uninit; ie \<leftarrow> uninit;
     return \<lparr>krg_cap_effective = word_of_int e, krg_cap_permitted = word_of_int p,
             krg_cap_inheritable_permitted = word_of_int ip, krg_cap_inheritable_effective = word_of_int ie\<rparr> }"

definition capset_work :: "nat \<Rightarrow> string \<Rightarrow> capset_args \<Rightarrow> parsed \<Rightarrow> ('a capset_scheme, int option) state" where
  "capset_work fuel program_name a ps = do {
     caps0 \<leftarrow> uninit_caps;
     if ca_set a then do {
       r \<leftarrow> get_caps_for_pid (ca_pid a) caps0;
       if fst r \<noteq> 0 then return (Some (fst r))
       else do {
         q \<leftarrow> second_pass program_name (snd r, False) ps;
         case q of Inl e \<Rightarrow> return (Some e)
         | Inr (caps, changed) \<Rightarrow>
             if changed then finish_set fuel a caps else return (Some EXIT_SUCCESS) } }
     else do {
       r \<leftarrow> get_caps_for_pid (ca_pid a) caps0;
       if fst r \<noteq> 0 then return (Some (fst r))
       else do { print_capabilities (snd r); return (Some EXIT_SUCCESS) } } }"

definition capset_main :: "string \<Rightarrow> nat \<Rightarrow> string \<Rightarrow> string list \<Rightarrow> ('a capset_scheme, int option) state" where
  "capset_main VERSION fuel program_name args =
     (case getopt_all capset_short_options capset_long_options args of (ps, operands) \<Rightarrow> do {
        f \<leftarrow> first_pass VERSION program_name \<lparr>ca_pid = -1, ca_show = False, ca_set = False, ca_force = False\<rparr> ps;
        case f of Inl e \<Rightarrow> return (Some e)
        | Inr a \<Rightarrow>
            if operands \<noteq> [] then do {
              emit (Err (''Unknown argument '' @ hd operands @ ''\<newline>''));
              capset_usage program_name;
              return (Some EXIT_FAILURE) }
            else if ca_show a \<and> ca_set a then do {
              emit (Err ''You can't use -s (or --show) and a modifier at the same time !\<newline>'');
              capset_usage program_name;
              return (Some EXIT_FAILURE) }
            else do {
              sup \<leftarrow> gets supported_caps;
              r \<leftarrow> krg_cap_get_supported sup;
              modify (\<lambda>s. s\<lparr>supported_caps := snd r\<rparr>);
              if fst r \<noteq> 0 then do {
                emit (Err ''Unable to get the list of supported caps.\<newline>Is Kerrighed running?\<newline>'');
                return (Some (fst r)) }
              else do {
                (if NOT (push_bit CAP_SIZE 1 - 1) AND snd r \<noteq> 0
                 then emit (Err (program_name @ '' version is too old for the running kernel.\<newline>'' @
                        ''Some capability names won't be recognized.\<newline>''))
                 else return ());
                capset_work fuel program_name a ps } } })"

section \<open>Names\<close>

lemma cap_text_length: "length cap_text = CAP_SIZE"
  by (simp add: cap_text_def CAP_SIZE_def)

lemma cap_text_no_nul: "i < CAP_SIZE \<Longrightarrow> CHR 0x00 \<notin> set (cap_text ! i)"
proof -
  assume "i < CAP_SIZE"
  then have "cap_text ! i \<in> set cap_text" by (simp add: cap_text_length)
  moreover have "list_all (\<lambda>t. CHR 0x00 \<notin> set t) cap_text" by (simp add: cap_text_def)
  ultimately show ?thesis by (simp add: list_all_iff)
qed

lemma cap_text_prefix_free:
  "list_all (\<lambda>i. list_all (\<lambda>j. i = j \<or> \<not> is_prefix (cap_text ! i) (cap_text ! j)) [0..<CAP_SIZE]) [0..<CAP_SIZE]"
  by (simp add: cap_text_def CAP_SIZE_def is_prefix_def upt_rec)

lemma is_prefix_comparable:
  "is_prefix a t \<Longrightarrow> is_prefix b t \<Longrightarrow> is_prefix a b \<or> is_prefix b a"
  by (simp add: is_prefix_def) (metis linorder_le_cases take_take min_absorb1)

text \<open>A token denotes the one capability whose name it starts with.\<close>

lemma match_cap_iff:
  assumes "CHR 0x00 \<notin> set token"
  shows "match_cap token = Some i \<longleftrightarrow> i < CAP_SIZE \<and> is_prefix (cap_text ! i) token"
proof -
  have P: "strncmp (cap_text ! i) token (length (cap_text ! i)) = 0 \<longleftrightarrow> is_prefix (cap_text ! i) token"
    if "i < CAP_SIZE" for i
    using strncmp_zero [OF cap_text_no_nul [OF that] assms] by (auto simp: is_prefix_def)
  have uniq: "i = j" if "i < CAP_SIZE" "j < CAP_SIZE" "is_prefix (cap_text ! i) token" "is_prefix (cap_text ! j) token"
    for i j
  proof -
    have "\<forall>i \<in> set [0..<CAP_SIZE]. \<forall>j \<in> set [0..<CAP_SIZE]. i = j \<or> \<not> is_prefix (cap_text ! i) (cap_text ! j)"
      using cap_text_prefix_free by (simp only: list_all_iff)
    then show ?thesis
      using that(1,2) is_prefix_comparable [OF that(3,4)] by (metis atLeastLessThan_iff set_upt zero_le)
  qed
  show ?thesis
  proof
    assume "match_cap token = Some i"
    then show "i < CAP_SIZE \<and> is_prefix (cap_text ! i) token"
      using P by (auto simp: match_cap_def find_Some_iff)
  next
    assume i: "i < CAP_SIZE \<and> is_prefix (cap_text ! i) token"
    then have "match_cap token \<noteq> None" using P by (auto simp: match_cap_def find_None_iff)
    then obtain j where j: "match_cap token = Some j" by blast
    then have "j < CAP_SIZE \<and> is_prefix (cap_text ! j) token"
      using P by (auto simp: match_cap_def find_Some_iff)
    then show "match_cap token = Some i" using j uniq i by blast
  qed
qed

lemma keeps_print_capability:
  assumes "\<And>m. blind f (Out m)"
  shows "keeps f (print_capability v)"
  unfolding print_capability_def print_one_def by (intro keeps_intros assms)

text \<open>The services that set capabilities.\<close>

definition set_calls :: "event list \<Rightarrow> (ksys \<times> kdata \<times> int) list" where
  "set_calls tr = filter (\<lambda>(k, _). k \<in> {KSYS_SET_CAP, KSYS_SET_PID_CAP, KSYS_SET_FATHER_CAP}) (ksys_calls tr)"

lemma blind_calls [simp]:
  "blind ksys_calls (Out m)" "blind ksys_calls (Err m)" "blind ksys_calls (Perror m e)"
  "blind ksys_calls (Sys Uninit r)"
  "blind set_calls (Out m)" "blind set_calls (Err m)" "blind set_calls (Sys Uninit r)"
  "blind set_calls (Sys Getchar r)"
  "blind set_calls (Sys (Open p f m') r)" "blind set_calls (Sys (Close fd) r)"
  "k \<notin> {KSYS_SET_CAP, KSYS_SET_PID_CAP, KSYS_SET_FATHER_CAP} \<Longrightarrow> blind set_calls (Sys (Ioctl fd k d) r)"
  by (simp_all add: blind_def set_calls_def)

lemma run_construct_token:
  assumes "CHR 0x00 \<notin> set token"
  shows "\<exists>s' r. run_state (construct_token token res) s = (r, s') \<and> ksys_calls (trace s') = ksys_calls (trace s) \<and>
    (\<forall>n. bit r n \<longleftrightarrow> bit res n \<or> n < CAP_SIZE \<and> is_prefix (cap_text ! n) token) \<and>
    ((\<exists>n < CAP_SIZE. is_prefix (cap_text ! n) token) \<longrightarrow> s' = s)"
proof (cases "match_cap token")
  case None
  have k: "keeps ksys_calls (construct_token token res :: ('a capset_scheme, 32 word) state)"
    unfolding construct_token_def by (intro keeps_intros keeps_print_capability) simp_all
  obtain r s' where r: "run_state (construct_token token res) s = (r, s')" by fastforce
  have "r = res" using r None by (auto simp: construct_token_def split: prod.splits)
  moreover have "\<not> (n < CAP_SIZE \<and> is_prefix (cap_text ! n) token)" for n
    using match_cap_iff [OF assms, of n] None by auto
  ultimately show ?thesis using r keepsD [OF k r] by blast
next
  case (Some i)
  then have i: "i < CAP_SIZE" "is_prefix (cap_text ! i) token" using match_cap_iff [OF assms] by auto
  have m: "n < CAP_SIZE \<and> is_prefix (cap_text ! n) token \<longleftrightarrow> n = i" for n
    using match_cap_iff [OF assms, of n] Some by auto
  have "i < 32" using i(1) by (simp add: CAP_SIZE_def)
  then have "bit (res OR push_bit i 1) n \<longleftrightarrow> bit res n \<or> n = i" for n
    by (auto simp: bit_or_iff bit_exp_iff)
  then have "\<forall>n. bit (res OR push_bit i 1) n \<longleftrightarrow> bit res n \<or> n < CAP_SIZE \<and> is_prefix (cap_text ! n) token"
    by (simp only: m simp_thms)
  moreover have "run_state (construct_token token res) s = (res OR push_bit i 1, s)"
    by (simp add: construct_token_def Some)
  ultimately show ?thesis by blast
qed

lemma run_construct_from:
  assumes "ts \<noteq> []" and "\<forall>t \<in> set ts. CHR 0x00 \<notin> set t \<and> CHR '','' \<notin> set t"
  shows "\<exists>s' r. run_state (construct_from (join_with (CHR '','') ts) res) s = (r, s') \<and>
    ksys_calls (trace s') = ksys_calls (trace s) \<and>
    (\<forall>n. bit r n \<longleftrightarrow> bit res n \<or> n < CAP_SIZE \<and> (\<exists>t \<in> set ts. is_prefix (cap_text ! n) t)) \<and>
    ((\<forall>t \<in> set ts. \<exists>n < CAP_SIZE. is_prefix (cap_text ! n) t) \<longrightarrow> s' = s)"
  using assms
proof (induction ts arbitrary: res s rule: list_nonempty_induct)
  case (single t)
  obtain r s' where r: "run_state (construct_token t res) s = (r, s')" "ksys_calls (trace s') = ksys_calls (trace s)"
      "\<forall>n. bit r n \<longleftrightarrow> bit res n \<or> n < CAP_SIZE \<and> is_prefix (cap_text ! n) t"
      "(\<exists>n < CAP_SIZE. is_prefix (cap_text ! n) t) \<longrightarrow> s' = s"
    using run_construct_token [of t res s] single by (meson list.set_intros(1))
  then show ?case using single strsep_notin [of "CHR '',''" t] by (auto simp: construct_from.simps [of t])
next
  case (cons t ts)
  obtain r s1 where r: "run_state (construct_token t res) s = (r, s1)" "ksys_calls (trace s1) = ksys_calls (trace s)"
      "\<forall>n. bit r n \<longleftrightarrow> bit res n \<or> n < CAP_SIZE \<and> is_prefix (cap_text ! n) t"
      "(\<exists>n < CAP_SIZE. is_prefix (cap_text ! n) t) \<longrightarrow> s1 = s"
    using run_construct_token [of t res s] cons.prems by (meson list.set_intros(1))
  have "\<forall>t \<in> set ts. CHR 0x00 \<notin> set t \<and> CHR '','' \<notin> set t" using cons.prems by simp
  from cons.IH [OF this, of r s1] obtain r' s' where r': "run_state (construct_from (join_with (CHR '','') ts) r) s1 = (r', s')"
      "ksys_calls (trace s') = ksys_calls (trace s1)"
      "\<forall>n. bit r' n \<longleftrightarrow> bit r n \<or> n < CAP_SIZE \<and> (\<exists>t \<in> set ts. is_prefix (cap_text ! n) t)"
      "(\<forall>t \<in> set ts. \<exists>n < CAP_SIZE. is_prefix (cap_text ! n) t) \<longrightarrow> s' = s1"
    by blast
  have j: "join_with (CHR '','') (t # ts) = t @ CHR '','' # join_with (CHR '','') ts"
    using cons.hyps by (rule join_with_Cons)
  have "strsep (join_with (CHR '','') (t # ts)) (CHR '','') = (t, Some (join_with (CHR '','') ts))"
    unfolding j using cons.prems by (intro strsep_append) simp
  then have "run_state (construct_from (join_with (CHR '','') (t # ts)) res) s = (r', s')"
    using r(1) r'(1) by (simp add: construct_from.simps [of "join_with (CHR '','') (t # ts)"])
  moreover have "\<forall>n. bit r' n \<longleftrightarrow>
      bit res n \<or> n < CAP_SIZE \<and> (\<exists>t' \<in> set (t # ts). is_prefix (cap_text ! n) t')"
    unfolding r'(3) [rule_format] r(3) [rule_format] list.set by blast
  moreover have "(\<forall>t' \<in> set (t # ts). \<exists>n < CAP_SIZE. is_prefix (cap_text ! n) t') \<longrightarrow> s' = s"
    using r(4) r'(4) by (metis list.set_intros)
  ultimately show ?case using r(2) r'(2) by (intro exI [of _ s'] exI [of _ r'] conjI) simp_all
qed

section \<open>Asking before the right to change is given up\<close>

lemma keeps_call [keeps_intros]:
  assumes "k \<notin> {KSYS_SET_CAP, KSYS_SET_PID_CAP, KSYS_SET_FATHER_CAP}"
  shows "keeps set_calls (call_kerrighed_services k d)"
  unfolding call_kerrighed_services_def open_kerrighed_services_def close_kerrighed_services_def
    call_opened_kerrighed_services_def
  using assms by (intro keeps_intros) simp_all

lemma keeps_capset_reads [keeps_intros]:
  "keeps set_calls (krg_father_capget c)" "keeps set_calls (krg_pid_capget pid c)"
  "keeps set_calls (krg_cap_get_supported v)" "keeps set_calls (print_capability v)"
  unfolding krg_father_capget_def krg_pid_capget_def krg_cap_get_supported_def
  by (intro keeps_intros keeps_print_capability; simp)+

lemma keeps_supported [keeps_intros]: "keeps f (modify (\<lambda>s. s\<lparr>supported_caps := v\<rparr>))"
  by (rule keeps_modify) simp

lemma keeps_capset_parts [keeps_intros]:
  "keeps set_calls (capset_usage pn)" "keeps set_calls (capset_version v pn)"
  "keeps set_calls (print_capabilities c)" "keeps set_calls (get_caps_for_pid pid c)"
  "keeps set_calls uninit_caps" "keeps set_calls getchar"
  unfolding capset_usage_def capset_version_def print_capabilities_def get_caps_for_pid_def uninit_caps_def
    getchar_def
  by (intro keeps_intros; simp)+

lemma keeps_construct_from: "keeps set_calls (construct_from d res)"
proof (induction d res rule: construct_from.induct)
  case (1 d res)
  have "keeps set_calls (construct_token t r :: ('a capset_scheme, 32 word) state)" for t r
    unfolding construct_token_def by (intro keeps_intros) simp_all
  with 1 show ?case by (subst construct_from.simps) (intro keeps_intros, auto)
qed

lemma keeps_new_value [keeps_intros]: "keeps set_calls (new_value d v)"
  unfolding new_value_def update_capability_def construct_capability_def
  by (intro keeps_intros keeps_construct_from)

lemma keeps_second_pass: "keeps set_calls (second_pass pn cb ps)"
proof (induction ps arbitrary: cb)
  case (Cons p ps)
  have "keeps set_calls (second_option pn cb p)"
    unfolding second_option_def Let_def by (intro keeps_intros)
  then show ?case using Cons by (auto intro!: keeps_intros)
qed (simp add: keeps_intros)

lemma keeps_first_pass: "keeps set_calls (first_pass v pn a ps)"
proof (induction ps arbitrary: a)
  case (Cons p ps)
  have "keeps set_calls (first_option v pn a p)"
    unfolding first_option_def by (intro keeps_intros) simp_all
  then show ?case using Cons by (auto intro!: keeps_intros)
qed (simp add: keeps_intros)

lemma first_pass_force:
  assumes "run_state (first_pass v pn a ps) s = (Inr a', s')" and "ca_force a'"
  shows "ca_force a \<or> (\<exists>x. (CHR ''f'', x) \<in> set ps)"
  using assms(1)
proof (induction ps arbitrary: a s)
  case Nil
  then show ?case using assms(2) by simp
next
  case (Cons p ps)
  obtain r s1 where r: "run_state (first_option v pn a p) s = (r, s1)" by fastforce
  then obtain a1 where a1: "r = Inr a1" using Cons.prems by (cases r) auto
  have "ca_force a1 \<longrightarrow> ca_force a \<or> fst p = CHR ''f''"
    using r a1 by (cases p) (simp add: first_option_def case_prod_unfold split: if_splits, fastforce+)
  moreover have "ca_force a1 \<or> (\<exists>x. (CHR ''f'', x) \<in> set ps)"
    using Cons.IH [of a1 s1] Cons.prems r a1 by simp
  ultimately show ?case by (cases p) auto
qed

text \<open>The user typed y or Y between two states.\<close>

definition said_yes :: "'a os_scheme \<Rightarrow> 'a os_scheme \<Rightarrow> bool" where
  "said_yes s s' \<longleftrightarrow> (\<exists>r \<in> {121, 89}. \<exists>e d. Sys Getchar (Resp r e d) \<in> set (drop (length (trace s)) (trace s')))"

lemma read_answer_yes:
  "run_state (read_answer fuel a) s = (Some x, s') \<Longrightarrow> x = 121 \<or> x = 89 \<Longrightarrow>
   (x = a \<or> said_yes s s') \<and> (\<exists>es. trace s' = trace s @ es) \<and> set_calls (trace s') = set_calls (trace s)"
proof (induction fuel arbitrary: a s)
  case 0
  then show ?case by (auto simp: read_answer.simps split: if_splits)
next
  case (Suc fuel)
  show ?case
  proof (cases "answer_ends a")
    case True
    then show ?thesis using Suc.prems by (auto simp: read_answer.simps)
  next
    case False
    obtain y e d where y: "answers s (trace s) Getchar = Resp y e d" by (cases "answers s (trace s) Getchar")
    let ?s = "after Getchar s"
    have r: "run_state (read_answer fuel y) ?s = (Some x, s')"
      using Suc.prems(1) False y by (simp add: read_answer.simps [of "Suc fuel"] getchar_def)
    note IH = Suc.IH [OF r Suc.prems(2)]
    obtain es where es: "trace s' = trace ?s @ es" using IH by blast
    have "said_yes s s'"
    proof (cases "x = y")
      case True
      then have "Sys Getchar (Resp x e d) \<in> set (drop (length (trace s)) (trace s'))" using es y by simp
      then show ?thesis using Suc.prems(2) by (auto simp: said_yes_def)
    next
      case False
      then show ?thesis using IH es by (auto simp: said_yes_def)
    qed
    then show ?thesis using IH es by (auto simp: set_calls_def)
  qed
qed

lemma confirm_yes:
  assumes "run_state (confirm fuel) s = (ok, s')"
  shows "(ok = Some True \<longrightarrow> said_yes s s' \<and> (\<exists>es. trace s' = trace s @ es) \<and>
    set_calls (trace s') = set_calls (trace s))"
proof
  assume ok: "ok = Some True"
  let ?m = "''Are you sure you want to loose the capability to change your capabilities (y/N)\<newline>''"
  let ?s1 = "s\<lparr>trace := trace s @ [Out ?m]\<rparr>"
  obtain y e d where y: "answers ?s1 (trace ?s1) Getchar = Resp y e d" by (cases "answers ?s1 (trace ?s1) Getchar")
  let ?s2 = "after Getchar ?s1"
  obtain x where x: "run_state (read_answer fuel y) ?s2 = (Some x, s')" "x = 121 \<or> x = 89"
    using assms ok y by (auto simp: confirm_def getchar_def split: prod.splits)
  note a = read_answer_yes [OF x]
  then obtain es where es: "trace s' = trace ?s2 @ es" by blast
  have "said_yes s s'"
  proof (cases "x = y")
    case True
    then have "Sys Getchar (Resp x e d) \<in> set (drop (length (trace s)) (trace s'))" using es y by simp
    then show ?thesis using x(2) by (auto simp: said_yes_def)
  next
    case False
    then show ?thesis using a es by (auto simp: said_yes_def)
  qed
  then show "said_yes s s' \<and> (\<exists>es. trace s' = trace s @ es) \<and> set_calls (trace s') = set_calls (trace s)"
    using a es by (auto simp: set_calls_def)
qed

lemma keeps_read_answer: "keeps set_calls (read_answer fuel a)"
proof (induction fuel arbitrary: a)
  case 0
  then show ?case by (simp add: read_answer.simps keeps_intros)
next
  case (Suc fuel)
  then show ?case
    by (simp add: read_answer.simps [of "Suc fuel"]) (intro keeps_intros impI conjI, auto intro: keeps_intros)
qed

lemma run_set_caps:
  assumes "run_state (set_caps_for_pid pid caps) s = (r, s')"
  shows "(\<exists>es. trace s' = trace s @ es) \<and> (set_calls (trace s') = set_calls (trace s) \<or>
    (\<exists>k d x. set_calls (trace s') = set_calls (trace s) @ [(k, d, x)] \<and>
      (k, d) \<in> {(KSYS_SET_FATHER_CAP, DCap caps), (KSYS_SET_PID_CAP, DPidCap pid caps)}))"
  using assms
  by (auto simp: set_caps_for_pid_def krg_father_capset_def krg_pid_capset_def call_service_def run_call Let_def
      set_calls_def services_path_def split: if_splits)

text \<open>At most one call sets capabilities; giving up the right to change them needs force or a yes.\<close>

definition yes_typed :: "event list \<Rightarrow> bool" where
  "yes_typed tr \<longleftrightarrow> (\<exists>r \<in> {121, 89}. \<exists>e d. Sys Getchar (Resp r e d) \<in> set tr)"

definition sets_guarded :: "bool \<Rightarrow> event list \<Rightarrow> event list \<Rightarrow> bool" where
  "sets_guarded force tr tr' \<longleftrightarrow> set_calls tr' = set_calls tr \<or>
    (\<exists>k d x caps pid. set_calls tr' = set_calls tr @ [(k, d, x)] \<and>
      (d = DCap caps \<or> d = DPidCap pid caps) \<and> (force \<or> keeps_change_cap caps \<or> yes_typed tr'))"

lemma said_yes_typed: "said_yes s s' \<Longrightarrow> yes_typed (trace s')"
  by (meson in_set_dropD said_yes_def yes_typed_def)

lemma run_finish_set:
  assumes "run_state (finish_set fuel a caps) s = (r, s')"
  shows "sets_guarded (ca_force a) (trace s) (trace s')"
proof -
  let ?ask = "\<not> ca_force a \<and> \<not> keeps_change_cap caps"
  obtain ok s1 where 1: "run_state (if ?ask then confirm fuel else return (Some True)) s = (ok, s1)" by fastforce
  have k: "keeps set_calls (if ?ask then confirm fuel else return (Some True))"
    unfolding confirm_def by (intro keeps_intros keeps_capset_parts keeps_read_answer) simp
  note s1 = keepsD [OF k 1]
  show ?thesis
  proof (cases "ok = Some True")
    case False
    then have "s' = s1" using assms 1 by (auto simp: finish_set_def split: option.splits if_splits)
    then show ?thesis using s1 by (simp add: sets_guarded_def)
  next
    case True
    obtain r2 s2 where 2: "run_state (set_caps_for_pid (ca_pid a) caps) s1 = (r2, s2)" by fastforce
    have s': "s' = s2" using assms 1 2 True by (simp add: finish_set_def)
    have "ca_force a \<or> keeps_change_cap caps \<or> yes_typed (trace s1)"
      using confirm_yes [of fuel s ok s1] 1 True said_yes_typed by (auto split: if_splits)
    then have "ca_force a \<or> keeps_change_cap caps \<or> yes_typed (trace s2)"
      using run_set_caps [OF 2] by (auto simp: yes_typed_def)
    then show ?thesis using run_set_caps [OF 2] s1 s' by (fastforce simp: sets_guarded_def)
  qed
qed

definition guarded :: "bool \<Rightarrow> ('a os_scheme, 'b) state \<Rightarrow> bool" where
  "guarded force m \<longleftrightarrow> (\<forall>s. sets_guarded force (trace s) (trace (snd (run_state m s))))"

lemma guarded_keeps: "keeps set_calls m \<Longrightarrow> guarded force m"
  by (simp add: guarded_def keeps_def sets_guarded_def)

lemma guarded_bind:
  assumes "keeps set_calls m" and "\<And>x s s'. run_state m s = (x, s') \<Longrightarrow> guarded force (g x)"
  shows "guarded force (m \<bind> g)"
  unfolding guarded_def
proof
  fix s
  obtain x s1 where 1: "run_state m s = (x, s1)" by fastforce
  have "sets_guarded force (trace s1) (trace (snd (run_state (g x) s1)))"
    using assms(2) [OF 1] by (simp add: guarded_def)
  then show "sets_guarded force (trace s) (trace (snd (run_state (m \<bind> g) s)))"
    using keepsD [OF assms(1) 1] 1 by (simp add: sets_guarded_def)
qed

lemma guarded_finish_set: "(ca_force a \<Longrightarrow> force) \<Longrightarrow> guarded force (finish_set fuel a caps)"
  unfolding guarded_def using run_finish_set [of fuel a caps] by (metis sets_guarded_def surjective_pairing)

lemma guarded_if: "(b \<Longrightarrow> guarded f m) \<Longrightarrow> (\<not> b \<Longrightarrow> guarded f n) \<Longrightarrow> guarded f (if b then m else n)"
  by simp

lemma guarded_case_sum:
  "(\<And>a. x = Inl a \<Longrightarrow> guarded f (g a)) \<Longrightarrow> (\<And>b. x = Inr b \<Longrightarrow> guarded f (h b)) \<Longrightarrow>
   guarded f (case x of Inl a \<Rightarrow> g a | Inr b \<Rightarrow> h b)"
  by (cases x) simp_all

lemma guarded_case_prod:
  "(\<And>a b. x = (a, b) \<Longrightarrow> guarded f (g a b)) \<Longrightarrow> guarded f (case x of (a, b) \<Rightarrow> g a b)"
  by (cases x) simp

lemma guarded_capset_work: "(ca_force a \<Longrightarrow> force) \<Longrightarrow> guarded force (capset_work fuel pn a ps)"
  unfolding capset_work_def
  by (intro guarded_bind guarded_if guarded_case_sum guarded_case_prod guarded_finish_set keeps_second_pass
      keeps_intros guarded_keeps; simp)

lemma guarded_capset_main:
  assumes "getopt_all capset_short_options capset_long_options args = (ps, ops)"
  shows "guarded (\<exists>x. (CHR ''f'', x) \<in> set ps) (capset_main VERSION fuel program_name args)"
  unfolding capset_main_def assms prod.case
proof (rule guarded_bind [OF keeps_first_pass], goal_cases)
  case (1 f s s')
  have force: "ca_force a \<Longrightarrow> \<exists>x. (CHR ''f'', x) \<in> set ps" if "f = Inr a" for a
    using first_pass_force 1 that by fastforce
  show ?case
    by (intro guarded_case_sum guarded_if guarded_bind guarded_capset_work
        keeps_intros force guarded_keeps; simp)
qed

text \<open>
  C5.  However \<^verbatim>\<open>krgcapset\<close> is invoked and whatever the kernel answers, it sets capabilities at
  most once; and it sets capabilities that lack the right to change capabilities, in the permitted
  or the effective vector, only if -f was given or the user answered the question with y.
\<close>

theorem capset_main_guarded:
  fixes s :: "'a capset_scheme"
  assumes "run_state (capset_main VERSION fuel program_name args) s = (r, s')" and "trace s = []"
  shows "set_calls (trace s') = [] \<or>
    (\<exists>k d x caps pid. set_calls (trace s') = [(k, d, x)] \<and> (d = DCap caps \<or> d = DPidCap pid caps) \<and>
      (keeps_change_cap caps \<or> yes_typed (trace s') \<or>
       (\<exists>x. (CHR ''f'', x) \<in> set (fst (getopt_all capset_short_options capset_long_options args)))))"
proof -
  obtain ps ops where g: "getopt_all capset_short_options capset_long_options args = (ps, ops)" by fastforce
  have "sets_guarded (\<exists>x. (CHR ''f'', x) \<in> set ps) (trace s) (trace s')"
    using guarded_capset_main [OF g, where 'a = 'a] assms(1) by (metis guarded_def snd_conv)
  then show ?thesis using assms(2) g unfolding sets_guarded_def by (auto simp: set_calls_def)
qed

theorem capset_main_guarded_witness:
  "\<exists>r s'. run_state (capset_main ''3'' 1 ''krgcapset'' [''-e'', ''0''])
      \<lparr>answers = no_kernel, trace = [], errno = 0, supported_caps = 0\<rparr> = (r, s') \<and>
    (set_calls (trace s') = [] \<or> (\<exists>k d x. set_calls (trace s') = [(k, d, x)]))"
proof -
  let ?s = "\<lparr>answers = no_kernel, trace = [], errno = 0, supported_caps = 0\<rparr>"
  obtain r s' where r: "run_state (capset_main ''3'' 1 ''krgcapset'' [''-e'', ''0'']) ?s = (r, s')" by fastforce
  from capset_main_guarded [OF r] r show ?thesis by auto
qed

section \<open>What descriptions mean\<close>

text \<open>
  C24.  The description of a set of capabilities, names between commas, denotes exactly the
  capabilities whose name starts one of its fields (a longer word counts as the name it starts
  with); a field that starts with no name is reported and contributes nothing.
\<close>

theorem construct_capability_bits:
  assumes "ts \<noteq> []" and "\<forall>t \<in> set ts. CHR 0x00 \<notin> set t \<and> CHR '','' \<notin> set t"
  shows "\<exists>r s'. run_state (construct_capability (join_with (CHR '','') ts)) s = (r, s') \<and>
    (\<forall>n. bit r n \<longleftrightarrow> n < CAP_SIZE \<and> (\<exists>t \<in> set ts. is_prefix (cap_text ! n) t)) \<and>
    ksys_calls (trace s') = ksys_calls (trace s) \<and>
    ((\<forall>t \<in> set ts. \<exists>n < CAP_SIZE. is_prefix (cap_text ! n) t) \<longrightarrow> s' = s)"
proof -
  obtain s' r where "run_state (construct_from (join_with (CHR '','') ts) 0) s = (r, s')"
    "ksys_calls (trace s') = ksys_calls (trace s)"
    "\<forall>n. bit r n \<longleftrightarrow> bit (0 :: 32 word) n \<or> n < CAP_SIZE \<and> (\<exists>t \<in> set ts. is_prefix (cap_text ! n) t)"
    "(\<forall>t \<in> set ts. \<exists>n < CAP_SIZE. is_prefix (cap_text ! n) t) \<longrightarrow> s' = s"
    using run_construct_from [OF assms, of 0 s] by blast
  then show ?thesis unfolding construct_capability_def by (intro exI [of _ r] exI [of _ s']) simp
qed

definition capset_os :: capset where
  "capset_os = \<lparr>answers = no_kernel, trace = [], errno = 0, supported_caps = 0\<rparr>"

theorem construct_capability_bits_witness:
  "\<exists>r s'. run_state (construct_capability (join_with (CHR '','') [''DEBUGGING'', ''FORK_DELAY''])) capset_os = (r, s') \<and>
     bit r 10 \<and> bit r 3 \<and> \<not> bit r 0"
proof -
  have "\<forall>t \<in> set [''DEBUGGING'', ''FORK_DELAY'']. CHR 0x00 \<notin> set t \<and> CHR '','' \<notin> set t" by simp
  from construct_capability_bits [OF _ this, of capset_os] obtain r s' where
    r: "run_state (construct_capability (join_with (CHR '','') [''DEBUGGING'', ''FORK_DELAY''])) capset_os = (r, s')"
    "\<forall>n. bit r n \<longleftrightarrow> n < CAP_SIZE \<and> (\<exists>t \<in> set [''DEBUGGING'', ''FORK_DELAY'']. is_prefix (cap_text ! n) t)"
    by blast
  have "bit r 10" "bit r 3" "\<not> bit r 0"
    unfolding r(2) [rule_format] by (simp_all add: is_prefix_def cap_text_def CAP_SIZE_def)
  then show ?thesis using r(1) by blast
qed

lemma cap_text_first:
  assumes "i < CAP_SIZE"
  shows "\<exists>c cs. cap_text ! i = c # cs \<and> \<not> is_digit 10 c \<and> CHR '','' \<notin> set (cap_text ! i)"
proof -
  have "list_all (\<lambda>t. t \<noteq> [] \<and> \<not> is_digit 10 (hd t) \<and> CHR '','' \<notin> set t) cap_text"
    by (simp add: cap_text_def is_digit_def digit_val_def)
  moreover have "cap_text ! i \<in> set cap_text" using assms by (simp add: cap_text_length)
  ultimately show ?thesis by (cases "cap_text ! i") (auto simp: list_all_iff)
qed

text \<open>A name starts with no other name.\<close>

lemma names_denote:
  assumes "\<forall>i \<in> set is. i < CAP_SIZE"
  shows "n < CAP_SIZE \<and> (\<exists>t \<in> set (map (\<lambda>i. cap_text ! i) is). is_prefix (cap_text ! n) t) \<longleftrightarrow> n \<in> set is"
proof -
  have "n < CAP_SIZE \<and> is_prefix (cap_text ! n) (cap_text ! i) \<longleftrightarrow> n = i" if "i < CAP_SIZE" for i
    using match_cap_iff [OF cap_text_no_nul [OF that], of n] match_cap_iff [OF cap_text_no_nul [OF that], of i] that
    by (auto simp: is_prefix_def)
  then show ?thesis using assms by auto
qed

definition names :: "nat list \<Rightarrow> string" where
  "names is = join_with (CHR '','') (map (\<lambda>i. cap_text ! i) is)"

lemma run_construct_names:
  assumes "is \<noteq> []" and "\<forall>i \<in> set is. i < CAP_SIZE"
  shows "\<exists>r. run_state (construct_capability (names is)) s = (r, s) \<and> (\<forall>n. bit r n \<longleftrightarrow> n \<in> set is)"
proof -
  let ?ts = "map (\<lambda>i. cap_text ! i) is"
  have ok: "?ts \<noteq> []" "\<forall>t \<in> set ?ts. CHR 0x00 \<notin> set t \<and> CHR '','' \<notin> set t"
    using assms cap_text_no_nul cap_text_first by auto
  have known: "\<forall>t \<in> set ?ts. \<exists>n < CAP_SIZE. is_prefix (cap_text ! n) t"
    using assms(2) by (auto simp: is_prefix_def)
  obtain s' r where r: "run_state (construct_from (join_with (CHR '','') ?ts) 0) s = (r, s')"
    "\<forall>n. bit r n \<longleftrightarrow> bit (0 :: 32 word) n \<or> n < CAP_SIZE \<and> (\<exists>t \<in> set ?ts. is_prefix (cap_text ! n) t)" "s' = s"
    using run_construct_from [OF ok, of 0 s] known by blast
  then show ?thesis
    using names_denote [OF assms(2)] by (simp add: construct_capability_def names_def)
qed

lemma names_first:
  assumes "is \<noteq> []" and "\<forall>i \<in> set is. i < CAP_SIZE"
  shows "\<exists>c cs. names is = c # cs \<and> \<not> is_digit 10 c"
proof -
  obtain i js where "is": "is = i # js" using assms(1) by (cases "is") auto
  then obtain c cs where "cap_text ! i = c # cs" "\<not> is_digit 10 c"
    using cap_text_first [of i] assms(2) by auto
  then show ?thesis by (cases js) (simp_all add: "is" names_def)
qed

text \<open>A sign and a list of names is not a number, so it is read as a change of the old vector.\<close>

lemma run_new_value:
  assumes "is \<noteq> []" and "\<forall>i \<in> set is. i < CAP_SIZE" and "c = CHR ''+'' \<or> c = CHR ''-''"
  shows "\<exists>v. run_state (new_value (c # names is) old) s = (v, s) \<and>
    (\<forall>n. bit v n \<longleftrightarrow> (if c = CHR ''+'' then bit old n \<or> n \<in> set is else bit old n \<and> n \<notin> set is))"
proof -
  obtain d ds where d: "names is = d # ds" "\<not> is_digit 10 d" using names_first [OF assms(1,2)] by blast
  have "d \<noteq> CHR ''0''" using d(2) by (auto simp: is_digit_def digit_val_def)
  then have "split_base 0 (d # ds) = (10, d # ds)" by (cases ds) (auto split: list.splits)
  moreover have "\<not> isspace c" using assms(3) by (auto simp: isspace_def)
  ultimately have st: "strtol (c # names is) 0 = (0, c # names is)"
    using d assms(3) by (auto simp: strtol_def Let_def simp del: split_base.simps)
  obtain r where r: "run_state (construct_capability (names is)) s = (r, s)" "\<forall>n. bit r n \<longleftrightarrow> n \<in> set is"
    using run_construct_names [OF assms(1,2)] by blast
  have n: "bit old n \<Longrightarrow> n < 32" for n using bit_imp_le_length [of old n] by simp
  show ?thesis
  proof (cases "c = CHR ''+''")
    case True
    then have "run_state (new_value (c # names is) old) s = (r OR old, s)"
      using st r(1) by (simp add: new_value_def update_capability_def)
    then show ?thesis using True r(2) by (auto simp: bit_or_iff)
  next
    case False
    then have "run_state (new_value (c # names is) old) s = (NOT r AND old, s)"
      using st r(1) assms(3) by (simp add: new_value_def update_capability_def)
    then show ?thesis using False r(2) n by (auto simp: bit_and_iff bit_not_iff)
  qed
qed

text \<open>Steps that leave the environment and the calls that set capabilities alone.\<close>

definition reads_only :: "'a os_scheme \<Rightarrow> 'a os_scheme \<Rightarrow> bool" where
  "reads_only s s' \<longleftrightarrow> answers s' = answers s \<and> set_calls (trace s') = set_calls (trace s)"

lemma reads_only_trans: "reads_only s t \<Longrightarrow> reads_only t u \<Longrightarrow> reads_only s u"
  by (simp add: reads_only_def)

lemma run_get_supported:
  assumes "can_open s" and "\<And>tr fd d. resp_ret (answers s tr (Ioctl fd KSYS_GET_SUPPORTED_CAP d)) = 0"
  shows "\<exists>v s'. run_state (krg_cap_get_supported old) s = ((0, v), s') \<and> reads_only s s'"
  using assms by (simp add: krg_cap_get_supported_def run_call Let_def can_open_def reads_only_def set_calls_def
      services_path_def)

lemma run_get_father:
  assumes "can_open s"
    and "\<And>tr fd d. resp_ret (answers s tr (Ioctl fd KSYS_GET_FATHER_CAP d)) = 0 \<and>
          resp_data (answers s tr (Ioctl fd KSYS_GET_FATHER_CAP d)) = DCap c0"
  shows "\<exists>s'. run_state (get_caps_for_pid (-1) c) s = ((0, c0), s') \<and> reads_only s s'"
  using assms by (simp add: get_caps_for_pid_def krg_father_capget_def run_call Let_def can_open_def reads_only_def
      set_calls_def services_path_def data_cap_def)

lemma run_uninit_caps: "\<exists>c s'. run_state uninit_caps s = (c, s') \<and> reads_only s s'"
  by (simp add: uninit_caps_def uninit_def reads_only_def set_calls_def)

lemma run_set_father:
  assumes "can_open s"
  shows "\<exists>x s'. run_state (set_caps_for_pid (-1) caps) s = (x, s') \<and>
    set_calls (trace s') = set_calls (trace s) @ [(KSYS_SET_FATHER_CAP, DCap caps, x)]"
  using assms by (simp add: set_caps_for_pid_def krg_father_capset_def call_service_def run_call Let_def can_open_def
      set_calls_def services_path_def)


definition caps_kernel :: "event list \<Rightarrow> req \<Rightarrow> resp" where
  "caps_kernel tr q = (case q of
     Open _ _ _ \<Rightarrow> Resp 3 None NoData
   | Ioctl _ k _ \<Rightarrow> (if k = KSYS_GET_FATHER_CAP
       then Resp 0 None (DCap \<lparr>krg_cap_effective = 1, krg_cap_permitted = 1,
              krg_cap_inheritable_permitted = 1, krg_cap_inheritable_effective = 1\<rparr>)
       else Resp 0 None NoData)
   | _ \<Rightarrow> Resp 0 None NoData)"


end
