(* ===== verification/Launch.thy ===== *)
theory Launch
  imports Capset Hotplug
begin

text \<open>
  The small tools that start or move processes: \<^verbatim>\<open>tools/krgcr-run.c\<close>, \<^verbatim>\<open>tools/migrate.c\<close>,
  \<^verbatim>\<open>tools/krginit.c\<close> and \<^verbatim>\<open>tools-host/krgboot.c\<close>.  A call of \<^verbatim>\<open>exec\<close> that succeeds does not return:
  the process is \<open>Replaced\<close>.  \<^verbatim>\<open>vfork\<close> returns once in each of two processes; its answer says which of
  them is followed.  The text of \<^verbatim>\<open>strerror\<close> is the error number.
\<close>

unbundle bit_operations_syntax

datatype launched = Exited int | Replaced | Running

section \<open>krgcr-run\<close>

record crrun = os +
  background :: bool
  sync_w_pipe :: bool
  setcap :: bool
  run_quiet :: bool
  filepath :: string
  run_pid :: int

definition MAX_FILEPATH :: nat where "MAX_FILEPATH = 256"

definition crrun_version :: "string \<Rightarrow> string \<Rightarrow> ('a os_scheme, unit) state" where
  "crrun_version VERSION program_name = out_lines
     [program_name @ '' '' @ VERSION,
      ''Copyright (C) 2010 Kerlabs.'',
      ''This is free software; see source for copying conditions. There is NO'',
      ''warranty; not even for MERCHANBILITY or FITNESS FOR A PARTICULAR PURPOSE.'',
      '''']"

definition crrun_usage :: "string \<Rightarrow> ('a os_scheme, unit) state" where
  "crrun_usage cmd = err_lines
     [''Usage: '' @ cmd @ '' [OPTIONS] -- program [arg ...]'',
      ''  -h          Show this information and exit'',
      ''  -v          Show version informations and exit'',
      ''  -o file     write the session id in a file'',
      ''  -b          start the program in background (default: foreground)'',
      ''  -q          (quiet) do not show the Application idendifier'']"

definition cap_failure :: "string \<Rightarrow> ('a os_scheme, int + unit) state" where
  "cap_failure what = do {
     p \<leftarrow> syscall Getpid;
     emit (Err (''Fail to '' @ what @ '' Kerrighed capabilities of current process ('' @ show_int (resp_ret p) @ '')\<newline>''));
     return (Inl EXIT_FAILURE) }"

definition give_checkpointable_capability :: "('a os_scheme, int + unit) state" where
  "give_checkpointable_capability = do {
     caps0 \<leftarrow> uninit_caps;
     g \<leftarrow> krg_capget caps0;
     if fst g \<noteq> 0 then cap_failure ''get''
     else do {
       r \<leftarrow> krg_capset ((snd g)\<lparr>krg_cap_inheritable_effective :=
              krg_cap_inheritable_effective (snd g) OR push_bit (cap_code CAP_CHECKPOINTABLE) 1\<rparr>);
       if r \<noteq> 0 then cap_failure ''set'' else return (Inr ()) } }"

definition crrun_short_options :: short_opts where
  "crrun_short_options =
     [(CHR ''v'', no_argument), (CHR ''h'', no_argument), (CHR ''b'', no_argument), (CHR ''o'', required_argument),
      (CHR ''q'', no_argument), (CHR ''s'', no_argument), (CHR ''n'', no_argument)]"

definition crrun_option :: "string \<Rightarrow> string \<Rightarrow> char \<Rightarrow> string option \<Rightarrow> ('a crrun_scheme, int + unit) state" where
  "crrun_option VERSION program_name c optarg =
     (if c = CHR ''v'' then do { crrun_version VERSION program_name; return (Inl EXIT_SUCCESS) }
      else if c = CHR ''b'' then do { modify (\<lambda>s. s\<lparr>background := True\<rparr>); return (Inr ()) }
      else if c = CHR ''o'' then do {
        modify (\<lambda>s. s\<lparr>filepath := take (MAX_FILEPATH - 1) (case optarg of Some a \<Rightarrow> a | None \<Rightarrow> [])\<rparr>);
        return (Inr ()) }
      else if c = CHR ''h'' then do { crrun_usage program_name; return (Inl EXIT_SUCCESS) }
      else if c = CHR ''q'' then do { modify (\<lambda>s. s\<lparr>run_quiet := True\<rparr>); return (Inr ()) }
      else if c = CHR ''s'' then do { modify (\<lambda>s. s\<lparr>sync_w_pipe := True\<rparr>); return (Inr ()) }
      else if c = CHR ''n'' then do { modify (\<lambda>s. s\<lparr>setcap := False\<rparr>); return (Inr ()) }
      else do {
        emit (Out ''** unknown option\<newline>'');
        crrun_usage program_name;
        return (Inl EXIT_FAILURE) })"

definition crrun_parse_args :: "string \<Rightarrow> string \<Rightarrow> string list \<Rightarrow> ('a crrun_scheme, int + string list) state" where
  "crrun_parse_args VERSION program_name args = do {
     let (opts, operands) = getopt_all crrun_short_options [] args;
     p \<leftarrow> opt_loop (crrun_option VERSION program_name) opts;
     case p of Inl e \<Rightarrow> return (Inl e)
     | Inr _ \<Rightarrow> do {
         b \<leftarrow> gets background;
         (if \<not> b then modify (\<lambda>s. s\<lparr>sync_w_pipe := False\<rparr>) else return ());
         return (Inr operands) } }"

definition crrun_relay_signal :: "int \<Rightarrow> ('a crrun_scheme, unit) state" where
  "crrun_relay_signal signum = do { p \<leftarrow> gets run_pid; syscall (Kill p signum); return () }"

text \<open>The result of \<^verbatim>\<open>wait\<close> is not looked at; without a child the status keeps its unassigned value.\<close>

definition crrun_parent :: "int \<times> int \<Rightarrow> ('a crrun_scheme, launched) state" where
  "crrun_parent fds = do {
     q \<leftarrow> gets run_quiet;
     p \<leftarrow> gets run_pid;
     b \<leftarrow> gets background;
     y \<leftarrow> gets sync_w_pipe;
     (if \<not> q then emit (Out (''Running application '' @ show_int p @ ''\<newline>'')) else return ());
     if \<not> b then do {
       st \<leftarrow> uninit;
       r \<leftarrow> syscall (Sigaction 2);
       (if resp_ret r \<noteq> 0 then perror ''sigaction'' else return ());
       r \<leftarrow> syscall (Sigaction 15);
       (if resp_ret r \<noteq> 0 then perror ''sigaction'' else return ());
       w \<leftarrow> syscall Wait;
       return (Exited (if (case resp_data w of DInt x \<Rightarrow> x | _ \<Rightarrow> st) \<noteq> 0 then EXIT_FAILURE else EXIT_SUCCESS)) }
     else do {
       (if y then do {
          syscall (Close (snd fds));
          r \<leftarrow> syscall (Read (fst fds) 1);
          (if resp_ret r = -1 then perror ''read'' else return ());
          syscall (Close (fst fds));
          return () }
        else return ());
       return (Exited EXIT_SUCCESS) } }"

text \<open>\<open>operands = []\<close> hands a null pointer to \<^verbatim>\<open>execvp\<close>, which fails.\<close>

definition crrun_child :: "int \<times> int \<Rightarrow> string list \<Rightarrow> ('a crrun_scheme, launched) state" where
  "crrun_child fds operands = do {
     y \<leftarrow> gets sync_w_pipe;
     (if y then do { syscall (Close (fst fds)); return () } else return ());
     sid \<leftarrow> syscall Setsid;
     if resp_ret sid < 0 then do { perror ''setsid''; return (Exited EXIT_FAILURE) }
     else do {
       path \<leftarrow> gets filepath;
       ok \<leftarrow> (if path \<noteq> [] then do {
               f \<leftarrow> syscall (Fopen path ''w'');
               if resp_ret f = 0 then do { perror ''fopen''; return False }
               else do {
                 syscall (Fputs (resp_ret f) (show_int (resp_ret sid)));
                 syscall (Fclose (resp_ret f));
                 return True } }
             else return True);
       if \<not> ok then return (Exited EXIT_FAILURE)
       else do {
         r \<leftarrow> syscall (Exec (case operands of [] \<Rightarrow> [] | p # _ \<Rightarrow> p) operands);
         if resp_ret r \<noteq> -1 then return Replaced
         else do { perror ''execvp''; return (Exited EXIT_FAILURE) } } } }"

definition crrun_fork :: "int \<times> int \<Rightarrow> string list \<Rightarrow> ('a crrun_scheme, launched) state" where
  "crrun_fork fds operands = do {
     v \<leftarrow> syscall Vfork;
     modify (\<lambda>s. s\<lparr>run_pid := resp_ret v\<rparr>);
     if resp_ret v = -1 then do { perror ''vfork''; return (Exited EXIT_FAILURE) }
     else if resp_ret v = 0 then crrun_child fds operands
     else crrun_parent fds }"

definition crrun_launch :: "string list \<Rightarrow> ('a crrun_scheme, launched) state" where
  "crrun_launch operands = do {
     y \<leftarrow> gets sync_w_pipe;
     fds \<leftarrow> (if y then do {
              r \<leftarrow> syscall Pipe;
              return (if resp_ret r = -1 then None
                      else Some (case resp_data r of DInts [a, b] \<Rightarrow> (a, b) | _ \<Rightarrow> (0, 0))) }
            else return (Some (0, 0)));
     case fds of None \<Rightarrow> do { perror ''pipe''; return (Exited EXIT_FAILURE) }
     | Some fd \<Rightarrow> crrun_fork fd operands }"

definition crrun_main :: "string \<Rightarrow> string \<Rightarrow> string list \<Rightarrow> ('a crrun_scheme, launched) state" where
  "crrun_main VERSION program_name args =
     (if args = [] then do { crrun_usage program_name; return (Exited EXIT_FAILURE) }
      else do {
        modify (\<lambda>s. s\<lparr>filepath := []\<rparr>);
        p \<leftarrow> crrun_parse_args VERSION program_name args;
        case p of Inl e \<Rightarrow> return (Exited e)
        | Inr operands \<Rightarrow> do {
            c \<leftarrow> gets setcap;
            k \<leftarrow> (if c then give_checkpointable_capability else return (Inr ()));
            case k of Inl e \<Rightarrow> return (Exited e)
            | Inr _ \<Rightarrow> crrun_launch operands } })"

section \<open>migrate\<close>

definition migrate_version :: "string \<Rightarrow> string \<Rightarrow> ('a os_scheme, unit) state" where
  "migrate_version VERSION program_name = out_lines
     [program_name @ '' '' @ VERSION,
      ''Copyright (C) 2001-2006, INRIA, Universite de Rennes 1, EDF.'',
      ''Copyright (C) 2010 Kerlabs.'',
      ''This is free software; see source for copying conditions. There is NO'',
      ''warranty; not even for MERCHANBILITY or FITNESS FOR A PARTICULAR PURPOSE.'',
      '''']"

definition migrate_help :: "string \<Rightarrow> ('a os_scheme, unit) state" where
  "migrate_help program_name = out_lines [''Usage: '' @ program_name @ '' [-h|--help] [-v|--version] <pid> <nodeid>'']"

definition migrate_option :: "string \<Rightarrow> string \<Rightarrow> char \<Rightarrow> string option \<Rightarrow> ('a os_scheme, int + unit) state" where
  "migrate_option VERSION program_name c optarg =
     (if c = CHR ''h'' then do { migrate_help program_name; return (Inl EXIT_SUCCESS) }
      else if c = CHR ''v'' then do { migrate_version VERSION program_name; return (Inl EXIT_SUCCESS) }
      else do { migrate_help program_name; return (Inl EXIT_FAILURE) })"

definition migrate_parse_args :: "string \<Rightarrow> string \<Rightarrow> string list \<Rightarrow> ('a os_scheme, int + int \<times> int) state" where
  "migrate_parse_args VERSION program_name args = do {
     let (opts, operands) = getopt_all [(CHR ''h'', no_argument), (CHR ''v'', no_argument)]
       [(''help'', no_argument, CHR ''h''), (''version'', no_argument, CHR ''v'')] args;
     p \<leftarrow> opt_loop (migrate_option VERSION program_name) opts;
     case p of Inl e \<Rightarrow> return (Inl e)
     | Inr _ \<Rightarrow>
         if length operands \<noteq> 2 then do { migrate_help program_name; return (Inl EXIT_FAILURE) }
         else return (Inr (atoi (operands ! 0), atoi (operands ! 1))) }"

definition migrate_main :: "string \<Rightarrow> string \<Rightarrow> string list \<Rightarrow> ('a os_scheme, int) state" where
  "migrate_main VERSION program_name args = do {
     p \<leftarrow> migrate_parse_args VERSION program_name args;
     case p of Inl e \<Rightarrow> return e
     | Inr (pid, nodeid) \<Rightarrow> do {
         r \<leftarrow> migrate pid nodeid;
         if r \<noteq> 0 then do { perror ''migrate''; return 1 } else return 0 } }"

section \<open>krginit\<close>

record kinit = krg +
  create_session :: bool

definition init_version :: "string \<Rightarrow> string \<Rightarrow> ('a os_scheme, unit) state" where
  "init_version VERSION program_name = out_lines
     [program_name @ '' '' @ VERSION,
      ''Copyright (C) 2010 Kerlabs.'',
      ''This is free software; see source for copying conditions. There is NO'',
      ''warranty; not even for MERCHANBILITY or FITNESS FOR A PARTICULAR PURPOSE.'',
      '''']"

definition init_help :: "string \<Rightarrow> ('a os_scheme, unit) state" where
  "init_help program_name = err_lines
     [''Usage: '' @ program_name @ '' [-s] [-h] [-v] [<init_program> [<init_arg1> ...]]'',
      ''Options:'',
      '' -s  Create a process session'',
      '' -h  Display these lines'',
      '' -v  Display version informations'']"

definition init_option :: "string \<Rightarrow> string \<Rightarrow> char \<Rightarrow> string option \<Rightarrow> ('a kinit_scheme, int + unit) state" where
  "init_option VERSION program_name c optarg =
     (if c = CHR ''s'' then do { modify (\<lambda>s. s\<lparr>create_session := True\<rparr>); return (Inr ()) }
      else if c = CHR ''v'' then do { init_version VERSION program_name; return (Inl EXIT_SUCCESS) }
      else if c = CHR ''h'' then do { init_help program_name; return (Inl EXIT_SUCCESS) }
      else do { init_help program_name; return (Inl EXIT_FAILURE) })"

definition init_get_config :: "string \<Rightarrow> string \<Rightarrow> string list \<Rightarrow> ('a kinit_scheme, int + string list) state" where
  "init_get_config VERSION program_name args = do {
     let (opts, operands) = getopt_all [(CHR ''s'', no_argument), (CHR ''v'', no_argument), (CHR ''h'', no_argument)] [] args;
     p \<leftarrow> opt_loop (init_option VERSION program_name) opts;
     case p of Inl e \<Rightarrow> return (Inl e) | Inr _ \<Rightarrow> return (Inr operands) }"

abbreviation (input) ECHILD :: int where "ECHILD \<equiv> 10"

text \<open>The first \<open>n\<close> rounds of the loop that reaps children; it never ends.\<close>

fun reap :: "nat \<Rightarrow> ('a os_scheme, launched) state" where
  "reap 0 = return Running"
| "reap (Suc n) = do {
     r \<leftarrow> syscall Wait;
     e \<leftarrow> gets errno;
     (if resp_ret r = -1 \<and> e = ECHILD then do { syscall (Sleep 1); return () } else return ());
     reap n }"

definition init_exec :: "string \<Rightarrow> nat \<Rightarrow> string list \<Rightarrow> ('a kinit_scheme, launched) state" where
  "init_exec program_name n operands = do {
     krg_node_ready 1;
     case operands of
       prog # _ \<Rightarrow> do {
         r \<leftarrow> syscall (Exec prog operands);
         if resp_ret r \<noteq> -1 then return Replaced
         else do {
           e \<leftarrow> gets errno;
           emit (Err (program_name @ '' execv('' @ prog @ '', ...) failed! '' @ show_int e @ ''\<newline>''));
           return (Exited 1) } }
     | [] \<Rightarrow> reap n }"

definition krginit_main :: "string \<Rightarrow> nat \<Rightarrow> string \<Rightarrow> string list \<Rightarrow> ('a kinit_scheme, launched) state" where
  "krginit_main VERSION n program_name args = do {
     p \<leftarrow> init_get_config VERSION program_name args;
     case p of Inl e \<Rightarrow> return (Exited e)
     | Inr operands \<Rightarrow> do {
         c \<leftarrow> gets create_session;
         if c then do {
           r \<leftarrow> syscall Setsid;
           if resp_ret r = -1 then do {
             e \<leftarrow> gets errno;
             emit (Err (program_name @ '' setsid() failed! '' @ show_int e @ ''\<newline>''));
             return (Exited 1) }
           else init_exec program_name n operands }
         else init_exec program_name n operands } }"

section \<open>krgboot\<close>

record kboot = krg +
  ns_clone_flags :: "32 word"

definition CLONE_NEWNS :: "32 word" where "CLONE_NEWNS = 0x00020000"
definition CLONE_NEWUTS :: "32 word" where "CLONE_NEWUTS = 0x04000000"
definition CLONE_NEWIPC :: "32 word" where "CLONE_NEWIPC = 0x08000000"
definition CLONE_NEWUSER :: "32 word" where "CLONE_NEWUSER = 0x10000000"
definition CLONE_NEWPID :: "32 word" where "CLONE_NEWPID = 0x20000000"
definition CLONE_NEWNET :: "32 word" where "CLONE_NEWNET = 0x40000000"

definition boot_version :: "string \<Rightarrow> string \<Rightarrow> ('a os_scheme, unit) state" where
  "boot_version VERSION program_name = out_lines
     [program_name @ '' '' @ VERSION,
      ''Copyright (C) 2010 Kerlabs.'',
      ''This is free software; see source for copying conditions. There is NO'',
      ''warranty; not even for MERCHANBILITY or FITNESS FOR A PARTICULAR PURPOSE.'',
      '''']"

definition boot_usage :: "string \<Rightarrow> ('a os_scheme, unit) state" where
  "boot_usage name = err_lines
     [''Usage: '' @ name @ '' [-hv] [-uimpnU] [--] <container_bootstrap_helper> [<init_arg1> ...]'',
      ''Options:'',
      '' -h  Display this information and exit'',
      '' -v  Display version information and exit'',
      '' -u  Isolate UTSname namespace'',
      '' -i  Isolate IPC namespace'',
      '' -m  Isolate Mount namespace'',
      '' -p  Isolate PID namespace'',
      '' -n  Isolate Net namespace'',
      '' -U  Isolate User namespace'']"

definition isolate :: "32 word \<Rightarrow> ('a kboot_scheme, int + unit) state" where
  "isolate f = do { modify (\<lambda>s. s\<lparr>ns_clone_flags := ns_clone_flags s OR f\<rparr>); return (Inr ()) }"

definition boot_option :: "string \<Rightarrow> string \<Rightarrow> char \<Rightarrow> string option \<Rightarrow> ('a kboot_scheme, int + unit) state" where
  "boot_option VERSION program_name c optarg =
     (if c = CHR ''h'' then do { boot_usage program_name; return (Inl EXIT_SUCCESS) }
      else if c = CHR ''v'' then do { boot_version VERSION program_name; return (Inl EXIT_SUCCESS) }
      else if c = CHR ''u'' then isolate CLONE_NEWUTS
      else if c = CHR ''i'' then isolate CLONE_NEWIPC
      else if c = CHR ''m'' then isolate CLONE_NEWNS
      else if c = CHR ''p'' then isolate CLONE_NEWPID
      else if c = CHR ''n'' then isolate CLONE_NEWNET
      else if c = CHR ''U'' then isolate CLONE_NEWUSER
      else do { boot_usage program_name; return (Inl EXIT_FAILURE) })"

definition boot_short_options :: short_opts where
  "boot_short_options = map (\<lambda>c. (c, no_argument)) ''hvuimpnU''"

definition boot_get_config :: "string \<Rightarrow> string \<Rightarrow> string list \<Rightarrow> ('a kboot_scheme, int + string list) state" where
  "boot_get_config VERSION program_name args = do {
     let (opts, operands) = getopt_all boot_short_options [] args;
     p \<leftarrow> opt_loop (boot_option VERSION program_name) opts;
     case p of Inl e \<Rightarrow> return (Inl e) | Inr _ \<Rightarrow> return (Inr operands) }"

definition do_exec_helper :: "string list \<Rightarrow> ('a os_scheme, launched) state" where
  "do_exec_helper argv = do {
     r \<leftarrow> syscall (Exec (hd argv) argv);
     if resp_ret r \<noteq> -1 then return Replaced
     else do {
       e \<leftarrow> gets errno;
       emit (Err (''execvp('' @ hd argv @ '', ...) failed! '' @ show_int e @ ''\<newline>''));
       return (Exited 1) } }"

text \<open>The cloned child runs \<^verbatim>\<open>do_exec_helper\<close> on the words the request carries; 17 is SIGCHLD.\<close>

definition do_clone_helper :: "string list \<Rightarrow> ('a kboot_scheme, int + unit) state" where
  "do_clone_helper argv = do {
     f \<leftarrow> gets ns_clone_flags;
     r \<leftarrow> syscall (Clone (f OR 17) argv);
     if resp_ret r < 0 then do {
       e \<leftarrow> gets errno;
       emit (Err (''clone(...) failed! '' @ show_int e @ ''\<newline>''));
       return (Inl 1) }
     else return (Inr ()) }"

definition boot_start :: "string list \<Rightarrow> ('a kboot_scheme, launched) state" where
  "boot_start operands = do {
     f \<leftarrow> gets ns_clone_flags;
     if f \<noteq> 0 then do {
       c \<leftarrow> do_clone_helper operands;
       return (Exited (case c of Inl e \<Rightarrow> e | Inr _ \<Rightarrow> 0)) }
     else do_exec_helper operands }"

definition boot_checked :: "string \<Rightarrow> string list \<Rightarrow> ('a kboot_scheme, launched) state" where
  "boot_checked program_name operands = do {
     h \<leftarrow> krg_check_hotplug;
     if h = 0 then do { emit (Err ''Must be run from root container only\<newline>''); return (Exited EXIT_FAILURE) }
     else do {
       c \<leftarrow> krg_check_container;
       if c = 0 then do { emit (Err ''Kerrighed container is already running\<newline>''); return (Exited EXIT_FAILURE) }
       else do {
         r \<leftarrow> krg_set_cluster_creator 1;
         if r \<noteq> 0 then do {
           e \<leftarrow> gets errno;
           emit (Err (program_name @ '' krg_set_clutser_creator(1) failed! '' @ show_int e @ ''\<newline>''));
           return (Exited EXIT_FAILURE) }
         else boot_start operands } } }"

definition krgboot_main :: "string \<Rightarrow> string \<Rightarrow> string list \<Rightarrow> ('a kboot_scheme, launched) state" where
  "krgboot_main VERSION program_name args = do {
     p \<leftarrow> boot_get_config VERSION program_name args;
     case p of Inl e \<Rightarrow> return (Exited e)
     | Inr operands \<Rightarrow>
         if operands = [] then do { boot_usage program_name; return (Exited EXIT_FAILURE) }
         else boot_checked program_name operands }"

section \<open>Starting the container\<close>

text \<open>The programs a history starts, by replacing the process or in a clone with the given flags.\<close>

fun starts :: "event list \<Rightarrow> (32 word option \<times> string list) list" where
  "starts [] = []"
| "starts (Sys (Exec p argv) r # es) = (None, argv) # starts es"
| "starts (Sys (Clone f argv) r # es) = (Some f, argv) # starts es"
| "starts (e # es) = starts es"

lemma starts_append [simp]: "starts (es @ fs) = starts es @ starts fs"
  by (induction es rule: starts.induct) simp_all

definition stats :: "event list \<Rightarrow> (string \<times> int) list" where
  "stats es = concat (map (\<lambda>e. case e of Sys (Stat p) r \<Rightarrow> [(p, resp_ret r)] | _ \<Rightarrow> []) es)"

lemma stats_append [simp]: "stats (es @ fs) = stats es @ stats fs"
  by (simp add: stats_def)

text \<open>Everything about the start of the container that a history shows.\<close>

definition boot_view :: "event list \<Rightarrow> _" where
  "boot_view tr = (starts tr, stats tr, ksys_calls tr)"

lemma keeps_boot_options: "keeps boot_view (opt_loop (boot_option V p) opts)"
  unfolding boot_option_def boot_usage_def boot_version_def isolate_def
  by (intro keeps_intros keeps_modify; simp add: blind_def boot_view_def stats_def)

text \<open>What precedes the start of a program: the three guards, and nothing else.\<close>

definition boot_guarded :: "event list \<Rightarrow> event list \<Rightarrow> bool" where
  "boot_guarded tr tr' \<longleftrightarrow>
     starts tr' = starts tr \<or>
     (\<exists>x c cs. starts tr' = starts tr @ [x] \<and> c \<noteq> 0 \<and> stats tr' = stats tr @ [(''/proc/nodes/self'', c)] \<and>
        ksys_calls tr' = ksys_calls tr @ cs @ [(KSYS_HOTPLUG_SET_CREATOR, DInt 1, 0)] \<and>
        cs \<in> {[]} \<union> {[(KSYS_GET_NODE_ID, NoData, e)] | e. e \<noteq> 0})"

lemma run_boot_start:
  "\<exists>r s' x. run_state (boot_start operands) s = (r, s') \<and> starts (trace s') = starts (trace s) @ [x] \<and>
    stats (trace s') = stats (trace s) \<and> ksys_calls (trace s') = ksys_calls (trace s)"
  by (auto simp: boot_start_def do_clone_helper_def do_exec_helper_def stats_def)

lemma run_call_service:
  "\<exists>r s' cs. run_state (call_service k d) s = (r, s') \<and> starts (trace s') = starts (trace s) \<and>
    stats (trace s') = stats (trace s) \<and> ksys_calls (trace s') = ksys_calls (trace s) @ cs \<and>
    (cs = [(k, d, r)] \<or> cs = [] \<and> r = -1) \<and> os.more s' = os.more s"
  by (simp add: call_service_def run_call Let_def services_path_def stats_def)

lemma boot_checked_guarded:
  "boot_guarded (trace s1) (trace (snd (run_state (boot_checked program_name operands) s1)))"
proof -
  obtain h s2 cs where 2: "run_state (call_service KSYS_GET_NODE_ID NoData) s1 = (h, s2)"
      "starts (trace s2) = starts (trace s1)" "stats (trace s2) = stats (trace s1)"
      "ksys_calls (trace s2) = ksys_calls (trace s1) @ cs" "cs = [(KSYS_GET_NODE_ID, NoData, h)] \<or> cs = [] \<and> h = -1"
    using run_call_service [of KSYS_GET_NODE_ID NoData s1] by auto
  let ?c = "resp_ret (answers s2 (trace s2) (Stat ''/proc/nodes/self''))"
  let ?s3 = "after (Stat ''/proc/nodes/self'') s2"
  obtain r s4 ds where 4: "run_state (call_service KSYS_HOTPLUG_SET_CREATOR (DInt 1)) ?s3 = (r, s4)"
      "starts (trace s4) = starts (trace ?s3)" "stats (trace s4) = stats (trace ?s3)"
      "ksys_calls (trace s4) = ksys_calls (trace ?s3) @ ds" "ds = [(KSYS_HOTPLUG_SET_CREATOR, DInt 1, r)] \<or> ds = [] \<and> r = -1"
    using run_call_service [of KSYS_HOTPLUG_SET_CREATOR "DInt 1" ?s3] by auto
  obtain y s5 z where 5: "run_state (boot_start operands) s4 = (y, s5)" "starts (trace s5) = starts (trace s4) @ [z]"
      "stats (trace s5) = stats (trace s4)" "ksys_calls (trace s5) = ksys_calls (trace s4)"
    using run_boot_start [of operands s4] by auto
  let ?t = "snd (run_state (boot_checked program_name operands) s1)"
  note defs = boot_checked_def krg_check_hotplug_def krg_check_container_def
    krg_set_cluster_creator_def
  show ?thesis
  proof (cases "h \<noteq> 0 \<and> ?c \<noteq> 0 \<and> r = 0")
    case False
    then have "starts (trace ?t) = starts (trace s1)"
      using 2(1) 4(1) 2(2) 4(2) by (cases "h = 0"; cases "?c = 0") (auto simp: defs)
    then show ?thesis by (simp add: boot_guarded_def)
  next
    case ok: True
    then have "?t = s5" using 2(1) 4(1) 5(1) by (auto simp: defs)
    moreover have "stats (trace ?s3) = stats (trace s2) @ [(''/proc/nodes/self'', ?c)]" by (simp add: stats_def)
    ultimately show ?thesis
      using ok 2(2-5) 4(2-5) 5(2-4) unfolding boot_guarded_def
      by (intro disjI2 exI [of _ z] exI [of _ ?c] exI [of _ cs]) auto
  qed
qed

text \<open>
  C11.  Whatever the command line and the environment, \<^verbatim>\<open>krgboot\<close> starts at most one program, and
  only after all of its guards held: it does not run inside a Kerrighed container, no container is
  running, and the kernel accepted the node as creator of the cluster.
\<close>

theorem krgboot_guarded:
  "boot_guarded (trace s) (trace (snd (run_state (krgboot_main VERSION program_name args) s)))"
proof -
  obtain opts operands where g: "getopt_all boot_short_options [] args = (opts, operands)" by fastforce
  obtain x s1 where 1: "run_state (opt_loop (boot_option VERSION program_name) opts) s = (x, s1)" by fastforce
  have v: "starts (trace s1) = starts (trace s)" "stats (trace s1) = stats (trace s)"
      "ksys_calls (trace s1) = ksys_calls (trace s)"
    using keepsD [OF keeps_boot_options 1] by (simp_all add: boot_view_def)
  show ?thesis
  proof (cases "\<exists>u. x = Inr u \<and> operands \<noteq> []")
    case False
    then have "starts (trace (snd (run_state (krgboot_main VERSION program_name args) s))) = starts (trace s1)"
      using g 1
      by (cases x) (auto simp: krgboot_main_def boot_get_config_def boot_usage_def err_lines_def)
    then show ?thesis using v by (simp add: boot_guarded_def)
  next
    case True
    then have "run_state (krgboot_main VERSION program_name args) s = run_state (boot_checked program_name operands) s1"
      using g 1 by (auto simp: krgboot_main_def boot_get_config_def)
    then show ?thesis using boot_checked_guarded [of s1 program_name operands] v unfolding boot_guarded_def by simp
  qed
qed

section \<open>Giving the capability before forking\<close>

definition forks :: "event list \<Rightarrow> nat" where
  "forks es = length (filter (\<lambda>e. case e of Sys Vfork r \<Rightarrow> True | _ \<Rightarrow> False) es)"

lemma forks_append [simp]: "forks (es @ fs) = forks es + forks fs"
  by (simp add: forks_def)

text \<open>
  The history shows that the kernel reported capabilities \<open>caps\<close> and accepted the same capabilities
  with checkpointing added to the inheritable effective ones.
\<close>

definition made_checkpointable :: "event list \<Rightarrow> bool" where
  "made_checkpointable es \<longleftrightarrow> (\<exists>fd old r caps. Sys (Ioctl fd KSYS_GET_CAP (DCap old)) r \<in> set es \<and> resp_ret r = 0 \<and>
     caps = data_cap old (resp_data r) \<and>
     (KSYS_SET_CAP, DCap (caps\<lparr>krg_cap_inheritable_effective :=
        krg_cap_inheritable_effective caps OR push_bit (cap_code CAP_CHECKPOINTABLE) 1\<rparr>), 0) \<in> set (ksys_calls es))"

lemma made_checkpointableI:
  "Sys (Ioctl fd KSYS_GET_CAP (DCap old)) r \<in> set es \<Longrightarrow> resp_ret r = 0 \<Longrightarrow>
   (KSYS_SET_CAP, DCap ((data_cap old (resp_data r))\<lparr>krg_cap_inheritable_effective :=
      krg_cap_inheritable_effective (data_cap old (resp_data r)) OR push_bit (cap_code CAP_CHECKPOINTABLE) 1\<rparr>), 0)
     \<in> set (ksys_calls es) \<Longrightarrow> made_checkpointable es"
  unfolding made_checkpointable_def by blast

text \<open>The history only grows.\<close>

definition grows :: "('a os_scheme, 'b) state \<Rightarrow> bool" where
  "grows m \<longleftrightarrow> (\<forall>s. \<exists>es. trace (snd (run_state m s)) = trace s @ es)"

lemma growsD: "grows m \<Longrightarrow> run_state m s = (x, s') \<Longrightarrow> \<exists>es. trace s' = trace s @ es"
  by (metis grows_def snd_conv)

lemma grows_framed: "framed m \<Longrightarrow> grows m"
  unfolding grows_def framed_def frame_def by blast

lemma grows_bind: "grows m \<Longrightarrow> (\<And>x. grows (f x)) \<Longrightarrow> grows (m \<bind> f)"
  unfolding grows_def by (auto split: prod.splits) (metis append_assoc snd_conv)

lemma grows_if: "(b \<Longrightarrow> grows m) \<Longrightarrow> (\<not> b \<Longrightarrow> grows n) \<Longrightarrow> grows (if b then m else n)"
  by simp

lemma grows_modify: "(\<And>s. trace (f s) = trace s) \<Longrightarrow> grows (modify f)"
  by (simp add: grows_def)

lemma grows_case_sum:
  "(\<And>a. x = Inl a \<Longrightarrow> grows (f a)) \<Longrightarrow> (\<And>b. x = Inr b \<Longrightarrow> grows (g b)) \<Longrightarrow>
   grows (case x of Inl a \<Rightarrow> f a | Inr b \<Rightarrow> g b)"
  by (cases x) simp_all

lemma grows_case_option:
  "(x = None \<Longrightarrow> grows m) \<Longrightarrow> (\<And>y. x = Some y \<Longrightarrow> grows (f y)) \<Longrightarrow> grows (case x of None \<Rightarrow> m | Some y \<Rightarrow> f y)"
  by (cases x) simp_all

lemma grows_opt_loop: "(\<And>c a. grows (f c a)) \<Longrightarrow> grows (opt_loop f ps)"
  by (induction ps) (auto intro!: grows_bind grows_case_sum intro: grows_framed framed_intros)

lemmas grows_intros = grows_bind grows_if grows_case_sum grows_case_option grows_opt_loop

lemma grows_parse: "grows (crrun_parse_args V p args)"
  unfolding crrun_parse_args_def crrun_option_def crrun_version_def crrun_usage_def Let_def case_prod_unfold
  by (intro grows_intros grows_modify; (intro grows_framed framed_intros)?; simp)

lemma grows_fork: "grows (crrun_fork fds operands)"
  unfolding crrun_fork_def crrun_child_def crrun_parent_def
  by (intro grows_intros grows_modify; (intro grows_framed framed_intros)?; simp)

lemma grows_launch: "grows (crrun_launch operands)"
  unfolding crrun_launch_def by (intro grows_intros grows_fork; intro grows_framed framed_intros)

lemma framed_uninit_caps [framed_intros]: "framed uninit_caps"
  unfolding uninit_caps_def by (intro framed_intros)

lemma framed_give [framed_intros]: "framed give_checkpointable_capability"
  unfolding give_checkpointable_capability_def cap_failure_def krg_capget_def krg_capset_def
  by (intro framed_intros)

lemma keeps_forks_call: "keeps forks (call_kerrighed_services k d)"
  by (simp add: keeps_def run_call Let_def forks_def services_path_def)

lemma keeps_forks_give: "keeps forks give_checkpointable_capability"
  unfolding give_checkpointable_capability_def cap_failure_def krg_capget_def krg_capset_def call_service_def uninit_caps_def
  by (intro keeps_intros keeps_forks_call; simp add: blind_def forks_def)

lemma keeps_forks_options: "keeps forks (crrun_parse_args V p args)"
proof -
  have "keeps forks (crrun_option V p c a)" for c a
    unfolding crrun_option_def crrun_version_def crrun_usage_def
    by (intro keeps_intros keeps_modify; simp add: blind_def forks_def)
  then show ?thesis
    unfolding crrun_parse_args_def Let_def by (auto intro!: keeps_intros keeps_modify split: prod.splits)
qed

lemma run_give:
  assumes "run_state give_checkpointable_capability s = (Inr u, s')"
  shows "\<exists>es. trace s' = trace s @ es \<and> made_checkpointable es"
proof -
  obtain old s1 where 1: "run_state uninit_caps s = (old, s1)" by fastforce
  let ?fd = "resp_ret (answers s1 (trace s1) services_path)"
  let ?s2 = "after services_path s1"
  let ?r = "answers s1 (trace ?s2) (Ioctl ?fd KSYS_GET_CAP (DCap old))"
  let ?caps = "data_cap old (resp_data ?r)"
  let ?new = "?caps\<lparr>krg_cap_inheritable_effective :=
        krg_cap_inheritable_effective ?caps OR push_bit (cap_code CAP_CHECKPOINTABLE) 1\<rparr>"
  let ?s4 = "after (Close ?fd) (after (Ioctl ?fd KSYS_GET_CAP (DCap old)) ?s2)"
  have ok: "?fd \<noteq> -1" "resp_ret ?r = 0"
    using assms 1
    by (auto simp: give_checkpointable_capability_def krg_capget_def run_call Let_def cap_failure_def split: if_splits)
  obtain c s5 where 5: "run_state (call_service KSYS_SET_CAP (DCap ?new)) ?s4 = (c, s5)" by fastforce
  have c: "c = 0" "s' = s5"
    using assms 1 ok 5
    by (auto simp: give_checkpointable_capability_def krg_capget_def krg_capset_def run_call Let_def cap_failure_def
      split: if_splits)
  obtain es1 where e1: "trace s1 = trace s @ es1" using framedD [OF framed_uninit_caps 1] by (auto simp: frame_def)
  obtain es5 where e5: "trace s5 = trace ?s4 @ es5" using framedD [OF framed_call_service 5] by (auto simp: frame_def)
  have "(KSYS_SET_CAP, DCap ?new, 0) \<in> set (ksys_calls es5)"
  proof -
    have "ksys_calls (trace s5) = ksys_calls (trace ?s4) @ [(KSYS_SET_CAP, DCap ?new, 0)]"
      using 5 c(1) by (auto simp: call_service_def run_call Let_def services_path_def split: if_splits)
    then have "ksys_calls es5 = [(KSYS_SET_CAP, DCap ?new, 0)]"
      unfolding e5 ksys_calls_append by (simp only: same_append_eq)
    then show ?thesis by simp
  qed
  moreover have "Sys (Ioctl ?fd KSYS_GET_CAP (DCap old)) ?r \<in> set (drop (length (trace s1)) (trace ?s4))" by simp
  ultimately have "made_checkpointable (es1 @ drop (length (trace s1)) (trace ?s4) @ es5)"
    using ok(2) by (intro made_checkpointableI [of ?fd old ?r]) (simp_all only: set_append ksys_calls_append Un_iff simp_thms)
  moreover have "trace s' = trace s @ es1 @ drop (length (trace s1)) (trace ?s4) @ es5" using e1 e5 c(2) by simp
  ultimately show ?thesis by blast
qed

lemma opt_loop_setcap:
  assumes "(CHR ''n'', None) \<notin> set opts" and "\<forall>a. (CHR ''n'', Some a) \<notin> set opts"
    and "run_state (opt_loop (crrun_option V p) opts) s = (x, s')"
  shows "setcap s' = setcap s"
  using assms
proof (induction opts arbitrary: s)
  case Nil
  then show ?case by simp
next
  case (Cons o1 opts)
  obtain c a where o1: "o1 = (c, a)" by fastforce
  have nn: "c \<noteq> CHR ''n''" using Cons.prems(1,2) o1 by (cases a) auto
  obtain y s1 where 1: "run_state (crrun_option V p c a) s = (y, s1)" by fastforce
  have "setcap s1 = setcap s"
    using 1 nn by (auto simp: crrun_option_def crrun_version_def crrun_usage_def out_lines_def err_lines_def split: if_splits)
  moreover have "setcap s' = setcap s1"
    using Cons.IH [of s1] Cons.prems 1 o1 by (cases y) auto
  ultimately show ?case by simp
qed

lemma crrun_parse_setcap:
  assumes "CHR ''n'' \<notin> fst ` set (fst (getopt_all crrun_short_options [] args))"
    and "run_state (crrun_parse_args V p args) s = (x, s')"
  shows "setcap s' = setcap s"
proof -
  obtain opts operands where g: "getopt_all crrun_short_options [] args = (opts, operands)" by fastforce
  obtain y t where t: "run_state (opt_loop (crrun_option V p) opts) s = (y, t)" by fastforce
  have "(CHR ''n'', a) \<notin> set opts" for a using assms(1) g by force
  then have "setcap t = setcap s" using opt_loop_setcap [OF _ _ t] by simp
  then show ?thesis using assms(2) t g by (cases y) (auto simp: crrun_parse_args_def split: if_splits)
qed

text \<open>
  C27.  Unless the hidden option \<^verbatim>\<open>-n\<close> is given, \<^verbatim>\<open>krgcr-run\<close> forks, and so starts the program, only
  after the kernel accepted capabilities for the tool that differ from those it reported in nothing
  but the added inheritable effective capability of being checkpointed; when either request fails it
  exits with a failure and never forks.
\<close>

theorem crrun_checkpointable_before_fork:
  assumes "setcap s" and "CHR ''n'' \<notin> fst ` set (fst (getopt_all crrun_short_options [] args))"
    and "run_state (crrun_main VERSION program_name args) s = (r, s')"
  shows "forks (trace s') = forks (trace s) \<or>
    (\<exists>es fs. trace s' = trace s @ es @ fs \<and> forks es = 0 \<and> made_checkpointable es)"
proof (cases "args = []")
  case True
  then show ?thesis using assms(3) by (auto simp: crrun_main_def crrun_usage_def err_lines_def forks_def)
next
  case False
  let ?s0 = "s\<lparr>filepath := []\<rparr>"
  obtain x s1 where 1: "run_state (crrun_parse_args VERSION program_name args) ?s0 = (x, s1)" by fastforce
  have f1: "forks (trace s1) = forks (trace s)" using keepsD [OF keeps_forks_options 1] by simp
  show ?thesis
  proof (cases x)
    case (Inl e)
    then have "s' = s1" using assms(3) False 1 by (simp add: crrun_main_def)
    then show ?thesis using f1 by simp
  next
    case (Inr ops)
    have sc: "setcap s1" using crrun_parse_setcap [OF _ 1] assms(1,2) by simp
    obtain k s2 where 2: "run_state give_checkpointable_capability s1 = (k, s2)" by fastforce
    have f2: "forks (trace s2) = forks (trace s1)" using keepsD [OF keeps_forks_give 2] .
    show ?thesis
    proof (cases k)
      case (Inl e)
      then have "s' = s2" using assms(3) False 1 Inr sc 2 by (simp add: crrun_main_def)
      then show ?thesis using f1 f2 by simp
    next
      case k: (Inr u)
      obtain es1 where e1: "trace s1 = trace s @ es1" using growsD [OF grows_parse 1] by auto
      obtain es2 where e2: "trace s2 = trace s1 @ es2" "made_checkpointable es2" using run_give 2 k by blast
      have "run_state (crrun_launch ops) s2 = (r, s')" using assms(3) False 1 Inr sc 2 k by (simp add: crrun_main_def)
      then obtain es3 where e3: "trace s' = trace s2 @ es3" using growsD [OF grows_launch] by blast
      have "forks (es1 @ es2) = 0" using f1 f2 e1 e2(1) by simp
      moreover have "made_checkpointable (es1 @ es2)"
        using e2(2) unfolding made_checkpointable_def ksys_calls_append set_append by blast
      ultimately show ?thesis using e1 e2(1) e3 by (intro disjI2 exI [of _ "es1 @ es2"] exI [of _ es3]) simp
    qed
  qed
qed

definition crrun_start :: crrun where
  "crrun_start = \<lparr>answers = (\<lambda>tr q. Resp 0 None NoData), trace = [], errno = 0, background = False, sync_w_pipe = False,
     setcap = True, run_quiet = False, filepath = [], run_pid = 0\<rparr>"

theorem crrun_checkpointable_before_fork_witness:
  "\<exists>r s'. run_state (crrun_main ''3'' ''krgcr-run'' [''prog'']) crrun_start = (r, s') \<and>
    (forks (trace s') = 0 \<or> (\<exists>es fs. trace s' = es @ fs \<and> forks es = 0 \<and> made_checkpointable es))"
proof -
  obtain r s' where r: "run_state (crrun_main ''3'' ''krgcr-run'' [''prog'']) crrun_start = (r, s')" by fastforce
  have "CHR ''n'' \<notin> fst ` set (fst (getopt_all crrun_short_options [] [''prog'']))"
    by (simp add: getopt_all_operands is_prefix_def)
  moreover have "setcap crrun_start" "trace crrun_start = []" "forks [] = 0" by (simp_all add: crrun_start_def forks_def)
  ultimately show ?thesis using crrun_checkpointable_before_fork [OF _ _ r] r by simp
qed

end
