(* ===== verification/Checkpoint.thy ===== *)
theory Checkpoint
  imports Callback Hotplug Getopt
begin

text \<open>
  \<^verbatim>\<open>tools/checkpoint.c\<close>: freezing, checkpointing and unfreezing an application.  A signal that
  interrupts the tool sets a flag; the flag is read at three places, and at each of them the
  environment may have delivered a signal since (\<open>Pending\<close>).  \<^verbatim>\<open>sprintf\<close> into the 256 bytes of a
  path is a \<open>Fault\<close> when the text does not fit.  Functions that end the process return \<open>Inl\<close> of
  the exit status.
\<close>

unbundle bit_operations_syntax

section \<open>State and command line\<close>

datatype app_action = ALL_STEPS | CHECKPOINT | FREEZE | UNFREEZE

record ckpt = krg +
  from_appid :: bool
  quiet :: bool
  no_callbacks :: bool
  interrupted_by_signal :: bool
  sig :: int
  ckpt_flags :: "32 word"
  description :: "string option"
  app_action_of :: app_action

definition CHKPT_DIR :: string where "CHKPT_DIR = ''/var/chkpt''"

definition ckpt_version :: "string \<Rightarrow> string \<Rightarrow> ('a os_scheme, unit) state" where
  "ckpt_version VERSION program_name = out_lines
     [program_name @ '' '' @ VERSION,
      ''Copyright (C) 2001-2006, INRIA, Universite de Rennes 1, EDF.'',
      ''Copyright (C) 2010 Kerlabs.'',
      ''This is free software; see source for copying conditions. There is NO'',
      ''warranty; not even for MERCHANBILITY or FITNESS FOR A PARTICULAR PURPOSE.'',
      '''']"

definition ckpt_show_help :: "string \<Rightarrow> ('a os_scheme, unit) state" where
  "ckpt_show_help program_name = out_lines
     [''Usage: '' @ program_name @ '' [options] <pid>'',
      '''',
      ''Mutually Exclusive Options:'',
      ''  Without any of these options, freeze and checkpoint the application.'',
      ''  -f|--freeze             Freeze the application'',
      ''  -u|--unfreeze [signal]  Unfreeze the application'',
      ''  -c|--ckpt-only          Checkpoint a frozen application'',
      ''  -k|--kill [signal]      Send a signal to the application, after checkpointing and before unfreezing'',
      '''',
      ''General Options:'',
      ''  -h|--help               Display this information and exit'',
      ''  -v|--version            Display version informations and exit'',
      ''  -q|--quiet              Be less verbose'',
      ''  -b|--no-callbacks       Do not execute callbacks'',
      ''  -d|--description        Associate a description with the checkpoint'',
      ''  -a|--appid              Use <pid> as an application identifier rather than a process identifier'',
      ''  -i|--ignore-unsupported-files'',
      ''                          Allow to checkpoint application with open files of unsupported type'']"

definition ckpt_short_options :: short_opts where
  "ckpt_short_options =
     [(CHR ''h'', no_argument), (CHR ''q'', no_argument), (CHR ''a'', no_argument), (CHR ''c'', no_argument),
      (CHR ''d'', required_argument), (CHR ''b'', no_argument), (CHR ''f'', no_argument),
      (CHR ''u'', optional_argument), (CHR ''k'', optional_argument), (CHR ''i'', no_argument)]"

definition ckpt_long_options :: long_opts where
  "ckpt_long_options =
     [(''help'', no_argument, CHR ''h''), (''version'', no_argument, CHR ''v''), (''quiet'', no_argument, CHR ''q''),
      (''from-appid'', no_argument, CHR ''a''), (''ckpt-only'', no_argument, CHR ''c''),
      (''description'', required_argument, CHR ''d''), (''no-callbacks'', no_argument, CHR ''b''),
      (''freeze'', no_argument, CHR ''f''), (''unfreeze'', optional_argument, CHR ''u''),
      (''kill'', optional_argument, CHR ''k''), (''ignore-unsupported-files'', no_argument, CHR ''i'')]"

definition ckpt_option :: "string \<Rightarrow> string \<Rightarrow> char \<Rightarrow> string option \<Rightarrow> ('a ckpt_scheme, int + unit) state" where
  "ckpt_option VERSION program_name c optarg =
     (if c = CHR ''h'' then do { ckpt_show_help program_name; return (Inl EXIT_SUCCESS) }
      else if c = CHR ''v'' then do { ckpt_version VERSION program_name; return (Inl EXIT_SUCCESS) }
      else if c = CHR ''q'' then do { modify (\<lambda>s. s\<lparr>quiet := True\<rparr>); return (Inr ()) }
      else if c = CHR ''a'' then do { modify (\<lambda>s. s\<lparr>from_appid := True\<rparr>); return (Inr ()) }
      else if c = CHR ''d'' then do { modify (\<lambda>s. s\<lparr>description := optarg\<rparr>); return (Inr ()) }
      else if c = CHR ''c'' then do { modify (\<lambda>s. s\<lparr>app_action_of := CHECKPOINT\<rparr>); return (Inr ()) }
      else if c = CHR ''b'' then do { modify (\<lambda>s. s\<lparr>no_callbacks := True\<rparr>); return (Inr ()) }
      else if c = CHR ''f'' then do { modify (\<lambda>s. s\<lparr>app_action_of := FREEZE\<rparr>); return (Inr ()) }
      else if c = CHR ''u'' then do {
        modify (\<lambda>s. s\<lparr>app_action_of := UNFREEZE\<rparr>);
        (case optarg of Some a \<Rightarrow> modify (\<lambda>s. s\<lparr>sig := atoi a\<rparr>) | None \<Rightarrow> return ());
        return (Inr ()) }
      else if c = CHR ''k'' then do {
        modify (\<lambda>s. s\<lparr>sig := (case optarg of Some a \<Rightarrow> atoi a | None \<Rightarrow> 15)\<rparr>);
        return (Inr ()) }
      else if c = CHR ''i'' then do {
        modify (\<lambda>s. s\<lparr>ckpt_flags := ckpt_flags s OR CKPT_W_UNSUPPORTED_FILE\<rparr>);
        return (Inr ()) }
      else do { ckpt_show_help program_name; return (Inl EXIT_FAILURE) })"

definition check_environment :: "('a krg_scheme, int + unit) state" where
  "check_environment = do {
     ret \<leftarrow> krg_check_hotplug;
     if ret \<noteq> 0 then do { perror ''Kerrighed is not started''; return (Inl EXIT_FAILURE) }
     else do {
       r \<leftarrow> syscall (Stat CHKPT_DIR);
       if resp_ret r \<noteq> 0 then do { perror CHKPT_DIR; return (Inl EXIT_FAILURE) }
       else return (Inr ()) } }"

section \<open>Checkpoint files\<close>

definition sprintf_path :: "string \<Rightarrow> ('a os_scheme, string) state" where
  "sprintf_path t = do { (if length t < 256 then return () else emit Fault); return t }"

definition app_dir :: "checkpoint_info \<Rightarrow> string" where
  "app_dir info = CHKPT_DIR @ ''/'' @ show_int (ci_app_id info) @ ''/''"

definition version_dir :: "checkpoint_info \<Rightarrow> string" where
  "version_dir info = app_dir info @ ''v'' @ show_int (ci_chkpt_sn info) @ ''/''"

definition write_description :: "string option \<Rightarrow> checkpoint_info \<Rightarrow> bool \<Rightarrow> ('a os_scheme, int) state" where
  "write_description descr info q = do {
     date \<leftarrow> syscall Time;
     let d = (case descr of None \<Rightarrow> ''No description'' | Some d \<Rightarrow> d);
     (if \<not> q then do {
        ct \<leftarrow> syscall (Ctime (resp_ret date));
        out_lines [''Identifier: '' @ show_int (ci_app_id info), ''Version: '' @ show_int (ci_chkpt_sn info),
          ''Description: '' @ d, ''Date: '' @ (case resp_data ct of DStr t \<Rightarrow> t | _ \<Rightarrow> '''')] }
      else return ());
     path \<leftarrow> sprintf_path (version_dir info @ ''description.txt'');
     fd \<leftarrow> syscall (Fopen path ''a'');
     if resp_ret fd = 0 then do { perror path; return (-1) }
     else do {
       syscall (Fputs (resp_ret fd)
         (''Identifier: '' @ show_int (ci_app_id info) @ ''\<newline>Version: '' @ show_int (ci_chkpt_sn info) @
          ''\<newline>Description: '' @ d @ ''\<newline>Date: '' @ show_int (resp_ret date) @ ''\<newline>''));
       syscall (Fclose (resp_ret fd));
       return 0 } }"

definition ckpt_show_error :: "int \<Rightarrow> ('a os_scheme, unit) state" where
  "ckpt_show_error e =
     (if e = E_CR_TASKDEAD
      then emit (Err ''checkpoint: can not checkpoint an application with dead/zombie process\<newline>'')
      else perror ''checkpoint'')"

definition DT_REG :: int where "DT_REG = 8"

text \<open>The loop that removes the regular files of the directory.\<close>

definition remove_entry :: "checkpoint_info \<Rightarrow> int \<times> string \<Rightarrow> ('a os_scheme, unit) state" where
  "remove_entry info ent =
     (if fst ent = DT_REG then do {
        path \<leftarrow> sprintf_path (version_dir info @ snd ent);
        r \<leftarrow> syscall (Remove path);
        (if resp_ret r \<noteq> 0 then perror ''remove'' else return ()) }
      else return ())"

text \<open>A directory that cannot be opened is the return value 0.\<close>

definition refresh_dir :: "string \<Rightarrow> ('a os_scheme, bool) state" where
  "refresh_dir path = do {
     dir \<leftarrow> syscall (Opendir path);
     if resp_ret dir = 0 then do { perror ''opendir''; return False }
     else do { syscall (Closedir (resp_ret dir)); return True } }"

definition clean_checkpoint_dir :: "checkpoint_info \<Rightarrow> ('a os_scheme, unit) state" where
  "clean_checkpoint_dir info =
     (if ci_chkpt_sn info = 0 then return ()
      else do {
        ok \<leftarrow> refresh_dir CHKPT_DIR;
        if \<not> ok then return ()
        else do {
          path \<leftarrow> sprintf_path (app_dir info);
          ok \<leftarrow> refresh_dir path;
          if \<not> ok then return ()
          else do {
            path \<leftarrow> sprintf_path (version_dir info);
            dir \<leftarrow> syscall (Opendir path);
            if resp_ret dir = 0 then perror ''opendir''
            else do {
              forM (remove_entry info) (case resp_data dir of DDir es \<Rightarrow> es | _ \<Rightarrow> []);
              syscall (Closedir (resp_ret dir));
              path \<leftarrow> sprintf_path (version_dir info);
              r \<leftarrow> syscall (Remove path);
              (if resp_ret r \<noteq> 0 then perror ''remove'' else return ());
              path \<leftarrow> sprintf_path (app_dir info);
              syscall (Remove path);
              return () } } } })"

section \<open>Freeze, checkpoint, unfreeze\<close>

definition ckpt_handle_signal :: "int \<Rightarrow> ('a ckpt_scheme, unit) state" where
  "ckpt_handle_signal signum = modify (\<lambda>s. s\<lparr>interrupted_by_signal := True\<rparr>)"

text \<open>Reading the flag: a signal may have been handled since it was last read.\<close>

definition interrupted :: "('a ckpt_scheme, bool) state" where
  "interrupted = do {
     r \<leftarrow> syscall Pending;
     (if resp_ret r \<noteq> 0 then ckpt_handle_signal (resp_ret r) else return ());
     gets interrupted_by_signal }"

definition announce :: "string \<Rightarrow> int \<Rightarrow> bool \<Rightarrow> ('a ckpt_scheme, unit) state" where
  "announce what pid q = do {
     a \<leftarrow> gets from_appid;
     if q then return ()
     else if a then emit (Out (what @ '' application '' @ show_int pid @ ''...\<newline>''))
     else emit (Out (what @ '' application in which process '' @ show_int (to_int pid) @ '' is involved...\<newline>'')) }"

definition checkpoint_app :: "int \<Rightarrow> 32 word \<Rightarrow> bool \<Rightarrow> ('a ckpt_scheme, int) state" where
  "checkpoint_app pid flags q = do {
     i \<leftarrow> interrupted;
     if i then do { emit (Err ''checkpoint: interrupted by signal before checkpointing\<newline>''); return (-1) }
     else do {
       a \<leftarrow> gets from_appid;
       announce ''Checkpointing'' pid q;
       info \<leftarrow> (if a then application_checkpoint_from_appid pid flags
                else application_checkpoint_from_pid (to_int pid) flags);
       (if ci_result info = 0 then do {
          d \<leftarrow> gets description;
          write_description d info q;
          return () }
        else do {
          e \<leftarrow> gets errno;
          ckpt_show_error e;
          clean_checkpoint_dir info });
       return (ci_result info) } }"

definition freeze_app :: "int \<Rightarrow> bool \<Rightarrow> ('a ckpt_scheme, int) state" where
  "freeze_app pid q = do {
     i \<leftarrow> interrupted;
     if i then do { emit (Err ''checkpoint: interrupted by signal before freezing\<newline>''); return (-1) }
     else do {
       a \<leftarrow> gets from_appid;
       nc \<leftarrow> gets no_callbacks;
       r \<leftarrow> (if nc then return 0 else cr_execute_chkpt_callbacks pid a);
       if r \<noteq> 0 then do { emit (Err ''checkpoint: error during callback execution\<newline>''); return r }
       else do {
         announce ''Freezing'' pid q;
         r \<leftarrow> (if a then application_freeze_from_appid pid else application_freeze_from_pid (to_int pid));
         (if r \<noteq> 0 then do { e \<leftarrow> gets errno; ckpt_show_error e } else return ());
         return r } } }"

definition unfreeze_app :: "int \<Rightarrow> int \<Rightarrow> bool \<Rightarrow> ('a ckpt_scheme, int) state" where
  "unfreeze_app pid signal q = do {
     i \<leftarrow> interrupted;
     act \<leftarrow> gets app_action_of;
     (if i \<and> act = ALL_STEPS then emit (Err ''checkpoint: ignoring interruption signal\<newline>'') else return ());
     if i \<and> act \<noteq> ALL_STEPS
     then do { emit (Err ''checkpoint: interrupted by signal before unfreezing\<newline>''); return (-1) }
     else do {
       a \<leftarrow> gets from_appid;
       nc \<leftarrow> gets no_callbacks;
       r \<leftarrow> (if nc then return 0 else cr_execute_continue_callbacks pid a);
       if r \<noteq> 0 then do { emit (Err ''checkpoint: error during callback execution\<newline>''); return r }
       else do {
         announce ''Unfreezing'' pid q;
         r \<leftarrow> (if a then application_unfreeze_from_appid pid signal
               else application_unfreeze_from_pid (to_int pid) signal);
         (if r \<noteq> 0 then do { e \<leftarrow> gets errno; ckpt_show_error e } else return ());
         return r } } }"

definition freeze_checkpoint_unfreeze :: "int \<Rightarrow> 32 word \<Rightarrow> int \<Rightarrow> bool \<Rightarrow> ('a ckpt_scheme, int) state" where
  "freeze_checkpoint_unfreeze pid flags signal q = do {
     r \<leftarrow> freeze_app pid q;
     if r \<noteq> 0 then return r
     else do {
       r \<leftarrow> checkpoint_app pid flags q;
       if r \<noteq> 0 then do { unfreeze_app pid 0 True; return r }
       else unfreeze_app pid signal q } }"

section \<open>Main\<close>

definition ckpt_dispatch :: "int \<Rightarrow> ('a ckpt_scheme, int) state" where
  "ckpt_dispatch pid = do {
     act \<leftarrow> gets app_action_of;
     flags \<leftarrow> gets ckpt_flags;
     signal \<leftarrow> gets sig;
     q \<leftarrow> gets quiet;
     case act of CHECKPOINT \<Rightarrow> checkpoint_app pid flags q
     | FREEZE \<Rightarrow> freeze_app pid q
     | UNFREEZE \<Rightarrow> unfreeze_app pid signal q
     | ALL_STEPS \<Rightarrow> freeze_checkpoint_unfreeze pid flags signal q }"

definition set_signal_handlers :: "('a os_scheme, unit) state" where
  "set_signal_handlers = do {
     r \<leftarrow> syscall (Sigaction 2);
     (if resp_ret r \<noteq> 0 then perror ''sigaction'' else return ());
     r \<leftarrow> syscall (Sigaction 15);
     (if resp_ret r \<noteq> 0 then perror ''sigaction'' else return ()) }"

definition ckpt_main :: "string \<Rightarrow> string \<Rightarrow> string list \<Rightarrow> ('a ckpt_scheme, int) state" where
  "ckpt_main VERSION program_name args = do {
     let (opts, operands) = getopt_all ckpt_short_options ckpt_long_options args;
     p \<leftarrow> opt_loop (ckpt_option VERSION program_name) opts;
     case p of Inl e \<Rightarrow> return e
     | Inr _ \<Rightarrow>
         if length operands \<noteq> 1 then do { ckpt_show_help program_name; return EXIT_FAILURE }
         else do {
           env \<leftarrow> check_environment;
           case env of Inl e \<Rightarrow> return e
           | Inr _ \<Rightarrow> do {
               let pid = atol (hd operands);
               r \<leftarrow> (if pid < 2 then return (- EINVAL)
                     else do { set_signal_handlers; ckpt_dispatch pid });
               return (if r \<noteq> 0 then EXIT_FAILURE else EXIT_SUCCESS) } } }"

section \<open>The requests made to the kernel\<close>

text \<open>The freeze, checkpoint and unfreeze requests of a history, with their results.\<close>

definition app_calls :: "event list \<Rightarrow> (ksys \<times> kdata \<times> int) list" where
  "app_calls tr = filter (\<lambda>c. fst c \<in> {KSYS_APP_FREEZE, KSYS_APP_UNFREEZE, KSYS_APP_CHKPT}) (ksys_calls tr)"

lemma app_calls_append [simp]: "app_calls (es @ fs) = app_calls es @ app_calls fs"
  by (simp add: app_calls_def)

lemma blind_app_calls:
  assumes "\<And>fd k d. q \<noteq> Ioctl fd k d"
  shows "blind app_calls (Sys q r)"
  using assms by (cases q) (auto simp: blind_def app_calls_def)

lemma blind_app_other [simp]:
  "blind app_calls (Out t)" "blind app_calls (Err t)" "blind app_calls (Perror t e)" "blind app_calls Fault"
  by (simp_all add: blind_def app_calls_def)

lemma keeps_app_syscall: "(\<And>fd k d. q \<noteq> Ioctl fd k d) \<Longrightarrow> keeps app_calls (syscall q)"
  by (intro keeps_intros blind_app_calls)

text \<open>\<open>conf s s'\<close>: the options and the environment are as before.\<close>

definition conf :: "'a ckpt_scheme \<Rightarrow> 'a ckpt_scheme \<Rightarrow> bool" where
  "conf s s' \<longleftrightarrow> answers s' = answers s \<and> from_appid s' = from_appid s \<and> no_callbacks s' = no_callbacks s \<and>
     app_action_of s' = app_action_of s"

lemma conf_trans: "conf s t \<Longrightarrow> conf t u \<Longrightarrow> conf s u"
  by (simp add: conf_def)

lemma frame_conf: "frame s s' \<Longrightarrow> conf s s'"
  unfolding frame_def conf_def by (cases s; cases s'; simp)

text \<open>Operations that make none of these requests and keep the options.\<close>

definition inert :: "('a ckpt_scheme, 'b) state \<Rightarrow> bool" where
  "inert m \<longleftrightarrow> (\<forall>s. conf s (snd (run_state m s)) \<and> app_calls (trace (snd (run_state m s))) = app_calls (trace s))"

lemma inertD: "inert m \<Longrightarrow> run_state m s = (x, s') \<Longrightarrow> conf s s' \<and> app_calls (trace s') = app_calls (trace s)"
  by (metis inert_def snd_conv)

lemma inertI: "framed m \<Longrightarrow> keeps app_calls m \<Longrightarrow> inert m"
  unfolding inert_def framed_def keeps_def using frame_conf by blast

lemma inert_interrupted: "inert interrupted"
  unfolding inert_def interrupted_def ckpt_handle_signal_def
  by (auto simp: app_calls_def conf_def after_def Let_def)

lemma inert_announce: "inert (announce w pid q)"
  by (rule inertI) (unfold announce_def, intro framed_intros, intro keeps_intros blind_app_other)

lemma keeps_other_call:
  "k \<notin> {KSYS_APP_FREEZE, KSYS_APP_UNFREEZE, KSYS_APP_CHKPT} \<Longrightarrow> keeps app_calls (call_kerrighed_services k d)"
  by (simp add: keeps_def run_call Let_def app_calls_def services_path_def)

lemma keeps_detect: "keeps app_calls (cr_detect_callbacks p b)"
  unfolding cr_detect_callbacks_def application_get_userdata_from_appid_def application_get_userdata_from_pid_def
    get_userdata_def
  by (intro keeps_intros keeps_other_call) simp_all

lemma framed_tool_callbacks [framed_intros]:
  "framed (cr_execute_chkpt_callbacks p b)" "framed (cr_execute_continue_callbacks p b)" "framed (cr_detect_callbacks p b)"
  unfolding cr_execute_chkpt_callbacks_def cr_execute_continue_callbacks_def cr_detect_callbacks_def
  by (intro framed_intros)+

lemma inert_callbacks: "inert (cr_execute_chkpt_callbacks p b)" "inert (cr_execute_continue_callbacks p b)"
  by (rule inertI, intro framed_intros,
      unfold cr_execute_chkpt_callbacks_def cr_execute_continue_callbacks_def,
      intro keeps_intros keeps_detect keeps_app_syscall; simp add: blind_def app_calls_def)+

lemma inert_show_error: "inert (ckpt_show_error e)"
  by (rule inertI; unfold ckpt_show_error_def; intro framed_intros keeps_intros; simp)

lemma framed_files [framed_intros]:
  "framed (sprintf_path t)" "framed (write_description d info q)" "framed (remove_entry info ent)"
  "framed (refresh_dir t)" "framed (clean_checkpoint_dir info)"
  unfolding clean_checkpoint_dir_def refresh_dir_def remove_entry_def write_description_def sprintf_path_def Let_def
  by (intro framed_intros)+

lemma keeps_sprintf: "keeps app_calls (sprintf_path t)"
  unfolding sprintf_path_def by (intro keeps_intros; simp)

lemma keeps_write_description: "keeps app_calls (write_description d info q)"
  unfolding write_description_def Let_def by (intro keeps_intros keeps_sprintf blind_app_calls; simp)

lemma keeps_remove_entry: "keeps app_calls (remove_entry info ent)"
  unfolding remove_entry_def by (intro keeps_intros keeps_sprintf blind_app_calls; simp)

lemma keeps_refresh_dir: "keeps app_calls (refresh_dir t)"
  unfolding refresh_dir_def by (intro keeps_intros blind_app_calls; simp)

lemma keeps_clean: "keeps app_calls (clean_checkpoint_dir info)"
  unfolding clean_checkpoint_dir_def
  by (intro keeps_intros keeps_sprintf keeps_refresh_dir keeps_remove_entry blind_app_calls; simp)

lemma inert_files: "inert (write_description d info q)" "inert (clean_checkpoint_dir info)"
  by (intro inertI framed_intros keeps_write_description keeps_clean)+

lemma inert_return: "inert (return x)"
  by (simp add: inert_def conf_def)

lemma inert_gets: "inert (gets f)"
  by (simp add: inert_def conf_def)

lemma inert_bind: "inert m \<Longrightarrow> (\<And>x. inert (f x)) \<Longrightarrow> inert (m \<bind> f)"
  unfolding inert_def by (auto split: prod.splits) (metis conf_trans snd_conv)+

lemma inert_if: "(b \<Longrightarrow> inert m) \<Longrightarrow> (\<not> b \<Longrightarrow> inert n) \<Longrightarrow> inert (if b then m else n)"
  by simp

lemma inert_emit: "blind app_calls e \<Longrightarrow> inert (emit e)"
  by (intro inertI framed_intros keeps_intros)

lemmas inert_intros = inert_return inert_gets inert_bind inert_if inert_emit inert_files inert_show_error
  inert_callbacks inert_announce inert_interrupted

text \<open>The application a request is about, as the options select it.\<close>

definition app_req :: "'a ckpt_scheme \<Rightarrow> int \<Rightarrow> 32 word \<Rightarrow> int \<Rightarrow> kdata \<Rightarrow> bool" where
  "app_req s pid flags signal d \<longleftrightarrow> (\<exists>i. d = DCkpt i \<and> ci_signal i = signal \<and>
     ci_app_id i = (if from_appid s then pid else to_int pid) \<and>
     ci_flags i = (if from_appid s then flags else flags OR APP_FROM_PID))"

lemma app_req_conf: "conf s s' \<Longrightarrow> app_req s' pid f g d = app_req s pid f g d"
  by (simp add: app_req_def conf_def)

lemma can_open_conf: "conf s s' \<Longrightarrow> can_open s' = can_open s"
  by (simp add: conf_def can_open_def)

text \<open>One request, then operations that make none: what the three steps of the tool have in common.\<close>

lemma run_one_request:
  assumes "can_open s" and "k \<in> {KSYS_APP_FREEZE, KSYS_APP_UNFREEZE, KSYS_APP_CHKPT}"
  shows "\<exists>r d' s'. run_state (call_kerrighed_services k d) s = ((r, d'), s') \<and> conf s s' \<and>
    app_calls (trace s') = app_calls (trace s) @ [(k, d, r)]"
proof -
  obtain r d' s' where 1: "run_state (call_kerrighed_services k d) s = ((r, d'), s')" by (metis prod.collapse)
  have "conf s s'" using frame_conf [OF framedD [OF framed_call 1]] .
  moreover have "app_calls (trace s') = app_calls (trace s) @ [(k, d, r)]"
    using 1 assms by (auto simp: run_call Let_def can_open_def app_calls_def services_path_def)
  ultimately show ?thesis using 1 by blast
qed

lemma inert_freeze_info: "inert (freeze_info a f g)" "inert uninit"
  by (intro inertI framed_intros; unfold freeze_info_def uninit_def; intro keeps_intros blind_app_calls; simp)+

lemma run_freeze_call:
  assumes "can_open s" and "k \<in> {KSYS_APP_FREEZE, KSYS_APP_UNFREEZE, KSYS_APP_CHKPT}"
    and "run_state (do { info \<leftarrow> freeze_info a f g; call_service k (DCkpt info) }) s = (r, s')"
  shows "conf s s' \<and> (\<exists>i. app_calls (trace s') = app_calls (trace s) @ [(k, DCkpt i, r)] \<and>
    ci_app_id i = a \<and> ci_flags i = f \<and> ci_signal i = g)"
proof -
  obtain i s1 where 1: "run_state (freeze_info a f g) s = (i, s1)" by fastforce
  have i: "ci_app_id i = a" "ci_flags i = f" "ci_signal i = g" using 1 by (auto simp: freeze_info_def split: prod.splits)
  note c1 = inertD [OF inert_freeze_info(1) 1]
  have "can_open s1" using assms(1) can_open_conf c1 by blast
  from run_one_request [OF this assms(2), of "DCkpt i"] obtain r' d' s2 where
    2: "run_state (call_kerrighed_services k (DCkpt i)) s1 = ((r', d'), s2)" "conf s1 s2"
      "app_calls (trace s2) = app_calls (trace s1) @ [(k, DCkpt i, r')]" by blast
  have "r = r'" "s' = s2" using assms(3) 1 2(1) by (simp_all add: call_service_def)
  then show ?thesis using c1 2(2,3) i conf_trans by auto
qed

lemma APP_FROM_PID_or: "0 OR APP_FROM_PID = (APP_FROM_PID :: 32 word)"
  by simp

lemma run_freeze_steps:
  assumes "can_open s"
  shows "run_state (if from_appid s then application_freeze_from_appid pid else application_freeze_from_pid (to_int pid)) s
      = (r, s') \<Longrightarrow> conf s s' \<and> (\<exists>d. app_calls (trace s') = app_calls (trace s) @ [(KSYS_APP_FREEZE, d, r)] \<and> app_req s pid 0 0 d)"
    and "run_state (if from_appid s then application_unfreeze_from_appid pid g
        else application_unfreeze_from_pid (to_int pid) g) s
      = (r, s') \<Longrightarrow> conf s s' \<and> (\<exists>d. app_calls (trace s') = app_calls (trace s) @ [(KSYS_APP_UNFREEZE, d, r)] \<and> app_req s pid 0 g d)"
  using run_freeze_call [OF assms, of KSYS_APP_FREEZE] run_freeze_call [OF assms, of KSYS_APP_UNFREEZE]
  unfolding application_freeze_from_appid_def application_freeze_from_pid_def
    application_unfreeze_from_appid_def application_unfreeze_from_pid_def app_req_def APP_FROM_PID_or
  by (cases "from_appid s"; force)+

lemma run_chkpt_step:
  assumes "can_open s"
    and "run_state (if from_appid s then application_checkpoint_from_appid pid f
        else application_checkpoint_from_pid (to_int pid) f) s = (info, s')"
  shows "conf s s' \<and> (\<exists>d. app_calls (trace s') = app_calls (trace s) @ [(KSYS_APP_CHKPT, d, ci_result info)] \<and>
    app_req s pid f 0 d)"
proof -
  let ?a = "if from_appid s then pid else to_int pid"
  let ?f = "if from_appid s then f else f OR APP_FROM_PID"
  obtain u s1 where 1: "run_state uninit s = (u, s1)" by fastforce
  let ?i = "\<lparr>ci_app_id = ?a, ci_flags = ?f, ci_chkpt_sn = 0, ci_result = u, ci_signal = 0\<rparr>"
  note c1 = inertD [OF inert_freeze_info(2) 1]
  have "can_open s1" using assms(1) can_open_conf c1 by blast
  from run_one_request [OF this, of KSYS_APP_CHKPT "DCkpt ?i"] obtain r d s2 where
    2: "run_state (call_kerrighed_services KSYS_APP_CHKPT (DCkpt ?i)) s1 = ((r, d), s2)" "conf s1 s2"
      "app_calls (trace s2) = app_calls (trace s1) @ [(KSYS_APP_CHKPT, DCkpt ?i, r)]" by blast
  have "run_state (chkpt_call ?a ?f) s = (info, s')"
    using assms(2) by (simp add: application_checkpoint_from_appid_def application_checkpoint_from_pid_def split: if_splits)
  then have "s' = s2" "ci_result info = r" using 1 2(1) by (auto simp: chkpt_call_def)
  then show ?thesis using c1 2(2,3) conf_trans by (auto simp: app_req_def)
qed

text \<open>What one step did: no request and a failure, or one request whose result is returned.\<close>

definition stepped :: "ksys \<Rightarrow> 32 word \<Rightarrow> int \<Rightarrow> int \<Rightarrow> 'a ckpt_scheme \<Rightarrow> int \<Rightarrow> 'a ckpt_scheme \<Rightarrow> bool" where
  "stepped k flags signal pid s r s' \<longleftrightarrow> conf s s' \<and>
     (app_calls (trace s') = app_calls (trace s) \<and> r \<noteq> 0 \<or>
      (\<exists>d. app_calls (trace s') = app_calls (trace s) @ [(k, d, r)] \<and> app_req s pid flags signal d))"

lemma stepped_after:
  assumes "conf s t" and "app_calls (trace t) = app_calls (trace s)" and "stepped k f g pid t r u"
  shows "stepped k f g pid s r u"
  using assms unfolding stepped_def by (metis app_req_conf conf_trans)

lemma stepped_before:
  assumes "stepped k f g pid s r t" and "conf t u" and "app_calls (trace u) = app_calls (trace t)"
  shows "stepped k f g pid s r u"
  using assms unfolding stepped_def by (metis conf_trans)

lemma stepped_none: "conf s t \<Longrightarrow> app_calls (trace t) = app_calls (trace s) \<Longrightarrow> r \<noteq> 0 \<Longrightarrow> stepped k f g pid s r t"
  by (simp add: stepped_def)

lemma freeze_app_steps:
  assumes "can_open s" and run: "run_state (freeze_app pid q) s = (r, s')"
  shows "stepped KSYS_APP_FREEZE 0 0 pid s r s'"
proof -
  obtain b s1 where 1: "run_state interrupted s = (b, s1)" by fastforce
  note c1 = inertD [OF inert_interrupted 1]
  show ?thesis
  proof (cases b)
    case True
    then have "r = -1" "s' = s1\<lparr>trace := trace s1 @ [Err ''checkpoint: interrupted by signal before freezing\<newline>'']\<rparr>"
      using run 1 by (simp_all add: freeze_app_def)
    then show ?thesis using c1 by (intro stepped_none) (simp_all add: conf_def app_calls_def)
  next
    case False
    let ?cb = "if no_callbacks s1 then return 0 else cr_execute_chkpt_callbacks pid (from_appid s1)"
    obtain r2 s2 where 2: "run_state ?cb s1 = (r2, s2)" by fastforce
    have "inert ?cb" by (intro inert_intros)
    note c2 = inertD [OF this 2]
    have c: "conf s s2" "app_calls (trace s2) = app_calls (trace s)" using c1 c2 conf_trans by auto
    show ?thesis
    proof (cases "r2 = 0")
      case False
      then have "r = r2" "s' = s2\<lparr>trace := trace s2 @ [Err ''checkpoint: error during callback execution\<newline>'']\<rparr>"
        using run 1 2 \<open>\<not> b\<close> by (simp_all add: freeze_app_def del: run_if)
      then show ?thesis using c False by (intro stepped_none) (simp_all add: conf_def app_calls_def)
    next
      case True
      obtain x3 s3 where 3: "run_state (announce ''Freezing'' pid q) s2 = (x3, s3)" by (metis surj_pair)
      note c3 = inertD [OF inert_announce 3]
      have f: "from_appid s1 = from_appid s3" using c2 c3 by (simp add: conf_def)
      obtain r4 s4 where 4: "run_state (if from_appid s3 then application_freeze_from_appid pid
          else application_freeze_from_pid (to_int pid)) s3 = (r4, s4)" by fastforce
      have "can_open s3" using assms(1) can_open_conf c c3 by blast
      from run_freeze_steps(1) [OF this 4] have st: "stepped KSYS_APP_FREEZE 0 0 pid s3 r4 s4" by (auto simp: stepped_def)
      let ?er = "if r4 \<noteq> 0 then do { e \<leftarrow> gets errno; ckpt_show_error e } else return ()"
      obtain x5 s5 where 5: "run_state ?er s4 = (x5, s5)" by (metis surj_pair)
      have "inert ?er" by (intro inert_intros)
      note c5 = inertD [OF this 5]
      have "r = r4" "s' = s5"
        using run 1 2 3 4 [folded f] 5 True \<open>\<not> b\<close> by (simp_all add: freeze_app_def del: run_if)
      then show ?thesis
        using stepped_after [OF _ _ stepped_before [OF st]] c c3 c5 conf_trans by metis
    qed
  qed
qed

lemma checkpoint_app_steps:
  assumes "can_open s" and run: "run_state (checkpoint_app pid f q) s = (r, s')"
  shows "stepped KSYS_APP_CHKPT f 0 pid s r s'"
proof -
  obtain b s1 where 1: "run_state interrupted s = (b, s1)" by fastforce
  note c1 = inertD [OF inert_interrupted 1]
  show ?thesis
  proof (cases b)
    case True
    then have "r = -1" "s' = s1\<lparr>trace := trace s1 @ [Err ''checkpoint: interrupted by signal before checkpointing\<newline>'']\<rparr>"
      using run 1 by (simp_all add: checkpoint_app_def)
    then show ?thesis using c1 by (intro stepped_none) (simp_all add: conf_def app_calls_def)
  next
    case False
    obtain x2 s2 where 2: "run_state (announce ''Checkpointing'' pid q) s1 = (x2, s2)" by (metis surj_pair)
    note c2 = inertD [OF inert_announce 2]
    have c: "conf s s2" "app_calls (trace s2) = app_calls (trace s)" "from_appid s1 = from_appid s2"
      using c1 c2 conf_trans by (auto simp: conf_def)
    obtain info s3 where 3: "run_state (if from_appid s2 then application_checkpoint_from_appid pid f
        else application_checkpoint_from_pid (to_int pid) f) s2 = (info, s3)" by fastforce
    have "can_open s2" using assms(1) can_open_conf c by blast
    from run_chkpt_step [OF this 3] have st: "stepped KSYS_APP_CHKPT f 0 pid s2 (ci_result info) s3"
      by (auto simp: stepped_def)
    let ?er = "if ci_result info = 0 then do { d \<leftarrow> gets description; write_description d info q; return () }
        else do { e \<leftarrow> gets errno; ckpt_show_error e; clean_checkpoint_dir info }"
    obtain x4 s4 where 4: "run_state ?er s3 = (x4, s4)" by (metis surj_pair)
    have "inert ?er" by (intro inert_intros)
    note c4 = inertD [OF this 4]
    have "r = ci_result info" "s' = s4"
      using run 1 2 3 [folded c(3)] 4 \<open>\<not> b\<close> by (simp_all add: checkpoint_app_def del: run_if)
    then show ?thesis using stepped_after [OF c(1,2) stepped_before [OF st]] c4 by blast
  qed
qed

text \<open>
  Unfreezing as the last step of the whole sequence: no signal stops it, only a failure to run the
  continue callbacks does.
\<close>

lemma unfreeze_app_steps:
  assumes "can_open s" and "app_action_of s = ALL_STEPS" and run: "run_state (unfreeze_app pid g q) s = (r, s')"
  shows "conf s s' \<and> (\<exists>s1 r2. conf s s1 \<and>
    r2 = (if no_callbacks s then 0 else fst (run_state (cr_execute_continue_callbacks pid (from_appid s)) s1)) \<and>
    (if r2 = 0 then \<exists>d. app_calls (trace s') = app_calls (trace s) @ [(KSYS_APP_UNFREEZE, d, r)] \<and> app_req s pid 0 g d
     else app_calls (trace s') = app_calls (trace s) \<and> r = r2))"
proof -
  obtain b s0 where 0: "run_state interrupted s = (b, s0)" by fastforce
  note c0 = inertD [OF inert_interrupted 0]
  have act: "app_action_of s0 = ALL_STEPS" using c0 assms(2) by (simp add: conf_def)
  let ?m = "if b then emit (Err ''checkpoint: ignoring interruption signal\<newline>'') else return ()"
  obtain x1 s1 where 1: "run_state ?m s0 = (x1, s1)" by (metis surj_pair)
  have "inert ?m" by (intro inert_intros) simp
  note c1 = inertD [OF this 1]
  have c: "conf s s1" "app_calls (trace s1) = app_calls (trace s)" using c0 c1 conf_trans by auto
  let ?cb = "if no_callbacks s1 then return 0 else cr_execute_continue_callbacks pid (from_appid s1)"
  obtain r2 s2 where 2: "run_state ?cb s1 = (r2, s2)" by fastforce
  have "inert ?cb" by (intro inert_intros)
  note c2 = inertD [OF this 2]
  have r2: "r2 = (if no_callbacks s then 0 else fst (run_state (cr_execute_continue_callbacks pid (from_appid s)) s1))"
    using 2 c by (auto simp: conf_def split: if_splits)
  have run1: "run_state (do { a \<leftarrow> gets from_appid; nc \<leftarrow> gets no_callbacks;
       r \<leftarrow> (if nc then return 0 else cr_execute_continue_callbacks pid a);
       if r \<noteq> 0 then do { emit (Err ''checkpoint: error during callback execution\<newline>''); return r }
       else do {
         announce ''Unfreezing'' pid q;
         r \<leftarrow> (if a then application_unfreeze_from_appid pid g else application_unfreeze_from_pid (to_int pid) g);
         (if r \<noteq> 0 then do { e \<leftarrow> gets errno; ckpt_show_error e } else return ());
         return r } }) s1 = (r, s')"
    using run 0 1 act by (auto simp: unfreeze_app_def split: if_splits)
  show ?thesis
  proof (cases "r2 = 0")
    case False
    then have "r = r2" "s' = s2\<lparr>trace := trace s2 @ [Err ''checkpoint: error during callback execution\<newline>'']\<rparr>"
      using run1 2 by (simp_all del: run_if)
    moreover from this have "conf s s'" "app_calls (trace s') = app_calls (trace s)"
      using c c2 by (auto simp: conf_def app_calls_def)
    ultimately show ?thesis using False r2 c(1) by auto
  next
    case True
    obtain x3 s3 where 3: "run_state (announce ''Unfreezing'' pid q) s2 = (x3, s3)" by (metis surj_pair)
    note c3 = inertD [OF inert_announce 3]
    have f: "from_appid s1 = from_appid s3" using c2 c3 by (simp add: conf_def)
    obtain r4 s4 where 4: "run_state (if from_appid s3 then application_unfreeze_from_appid pid g
        else application_unfreeze_from_pid (to_int pid) g) s3 = (r4, s4)" by fastforce
    have cs3: "conf s s3" using c(1) c2 c3 conf_trans by blast
    have "can_open s3" using assms(1) can_open_conf cs3 by blast
    note st = run_freeze_steps(2) [OF this 4]
    let ?er = "if r4 \<noteq> 0 then do { e \<leftarrow> gets errno; ckpt_show_error e } else return ()"
    obtain x5 s5 where 5: "run_state ?er s4 = (x5, s5)" by (metis surj_pair)
    have "inert ?er" by (intro inert_intros)
    note c5 = inertD [OF this 5]
    have e: "r = r4" "s' = s5" using run1 2 3 4 [folded f] 5 True by (simp_all del: run_if)
    have "conf s s'" using cs3 st c5 e conf_trans by blast
    moreover have "\<exists>d. app_calls (trace s') = app_calls (trace s) @ [(KSYS_APP_UNFREEZE, d, r)] \<and> app_req s pid 0 g d"
      using st c5 e c c2 c3 app_req_conf [OF cs3] by auto
    ultimately show ?thesis using True r2 c(1) by (intro conjI exI [of _ s1] exI [of _ r2]) (simp_all only: if_True refl)
  qed
qed

text \<open>The environment never fails to deliver the signal that runs the continue callbacks.\<close>

definition continues :: "'a ckpt_scheme \<Rightarrow> int \<Rightarrow> bool" where
  "continues s pid \<longleftrightarrow> no_callbacks s \<or> (\<forall>tr. resp_ret (answers s tr (Kill (to_int pid) SIG_CB_RUN_CNT)) = 0)"

lemma continue_ok:
  assumes "\<And>tr. resp_ret (answers s tr (Kill (to_int pid) SIG_CB_RUN_CNT)) = 0"
  shows "fst (run_state (cr_execute_continue_callbacks pid a) s) = 0"
proof -
  obtain d s1 where 1: "run_state (cr_detect_callbacks pid a) s = (d, s1)" by fastforce
  have "answers s1 = answers s" using frame_answers [OF framedD [OF framed_tool_callbacks(3) 1]] .
  then show ?thesis using 1 assms by (simp add: cr_execute_continue_callbacks_def)
qed

text \<open>
  The requests of the whole sequence: \<open>e\<close> is the result of the freeze; after a successful one there
  is a checkpoint request or none, and then the unfreeze request, which carries the signal only if the
  checkpoint succeeded.
\<close>

definition sequence_ok :: "'a ckpt_scheme \<Rightarrow> int \<Rightarrow> 32 word \<Rightarrow> int \<Rightarrow> int \<Rightarrow> (ksys \<times> kdata \<times> int) list \<Rightarrow> bool" where
  "sequence_ok s pid flags signal r new \<longleftrightarrow>
     new = [] \<and> r \<noteq> 0 \<or>
     (\<exists>f. new = [(KSYS_APP_FREEZE, f, r)] \<and> app_req s pid 0 0 f \<and> r \<noteq> 0) \<or>
     (\<exists>f c u. new = [(KSYS_APP_FREEZE, f, 0), (KSYS_APP_CHKPT, c, 0), (KSYS_APP_UNFREEZE, u, r)] \<and>
        app_req s pid 0 0 f \<and> app_req s pid flags 0 c \<and> app_req s pid 0 signal u) \<or>
     (\<exists>f c u e. new = [(KSYS_APP_FREEZE, f, 0), (KSYS_APP_CHKPT, c, r), (KSYS_APP_UNFREEZE, u, e)] \<and> r \<noteq> 0 \<and>
        app_req s pid 0 0 f \<and> app_req s pid flags 0 c \<and> app_req s pid 0 0 u) \<or>
     (\<exists>f u e. new = [(KSYS_APP_FREEZE, f, 0), (KSYS_APP_UNFREEZE, u, e)] \<and> r \<noteq> 0 \<and>
        app_req s pid 0 0 f \<and> app_req s pid 0 0 u)"


text \<open>A kernel that grants every request, and a tool that was asked for all three steps.\<close>

definition ckpt_start :: "(event list \<Rightarrow> req \<Rightarrow> resp) \<Rightarrow> ckpt" where
  "ckpt_start f = \<lparr>answers = f, trace = [], errno = 0, kerrighed_max_nodes = 0, kerrighed_max_clusters = 0,
     from_appid = False, quiet = True, no_callbacks = False, interrupted_by_signal = False, sig = 0, ckpt_flags = 0,
     description = None, app_action_of = ALL_STEPS\<rparr>"

definition grants :: "event list \<Rightarrow> req \<Rightarrow> resp" where
  "grants tr q = Resp 0 None NoData"


text \<open>
  The application has declared callbacks, and the signal that runs its continue callbacks cannot be
  delivered.
\<close>

definition stuck :: "'a ckpt_scheme \<Rightarrow> int \<Rightarrow> bool" where
  "stuck s pid \<longleftrightarrow> \<not> no_callbacks s \<and>
     (\<forall>tr. resp_ret (answers s tr (Kill (to_int pid) SIG_CB_RUN_CNT)) \<noteq> 0 \<and>
       (\<forall>fd d. \<exists>e i. answers s tr (Ioctl fd KSYS_APP_GET_USERDATA d) = Resp 0 e (DUser i) \<and> odd (ur_user_data i)))"

lemma continue_stuck:
  assumes "can_open s" and "stuck s pid" and "conf s t"
  shows "fst (run_state (cr_execute_continue_callbacks pid a) t) \<noteq> 0"
proof -
  have a: "answers t = answers s" "no_callbacks t = no_callbacks s" using assms(3) by (simp_all add: conf_def)
  have t: "can_open t" using assms(1) a(1) by (simp add: can_open_def)
  have st: "stuck t pid" using assms(2) unfolding stuck_def a .
  have u: "\<exists>i t'. run_state (call_kerrighed_services KSYS_APP_GET_USERDATA d) t = ((0, DUser i), t') \<and> odd (ur_user_data i) \<and>
      answers t' = answers t" for d
  proof -
    let ?fd = "resp_ret (answers t (trace t) services_path)"
    obtain e i where "answers t (trace (after services_path t)) (Ioctl ?fd KSYS_APP_GET_USERDATA d) = Resp 0 e (DUser i)"
        "odd (ur_user_data i)"
      using st unfolding stuck_def by blast
    then show ?thesis using t by (simp add: run_call Let_def can_open_def)
  qed
  have "\<exists>t'. run_state (cr_detect_callbacks pid a) t = (0, t') \<and> answers t' = answers t"
    using u [of "DUser \<lparr>ur_app_id = pid, ur_flags = 0, ur_user_data = 0\<rparr>"]
      u [of "DUser \<lparr>ur_app_id = to_int pid, ur_flags = APP_FROM_PID, ur_user_data = 0\<rparr>"]
    by (cases a)
      (auto simp: cr_detect_callbacks_def application_get_userdata_from_appid_def application_get_userdata_from_pid_def
        get_userdata_def CR_CB_ACTIV_CB_def and_one_eq odd_iff_mod_2_eq_one)
  then show ?thesis using st by (auto simp: cr_execute_continue_callbacks_def stuck_def)
qed

text \<open>
  C14.  When the continue callbacks cannot be run, the application stays frozen: the tool freezes it,
  and no unfreeze request is ever made.
\<close>

theorem continue_failure_leaves_frozen:
  assumes "can_open s" and "app_action_of s = ALL_STEPS" and "stuck s pid"
  shows "\<exists>r s' new. run_state (freeze_checkpoint_unfreeze pid flags signal q) s = (r, s') \<and> r \<noteq> 0 \<and>
    app_calls (trace s') = app_calls (trace s) @ new \<and> (\<forall>c \<in> set new. fst c \<noteq> KSYS_APP_UNFREEZE) \<and>
    (\<exists>r1 s1. run_state (freeze_app pid q) s = (r1, s1) \<and> (r1 = 0 \<longrightarrow> (\<exists>f. (KSYS_APP_FREEZE, f, 0) \<in> set new)))"
proof -
  obtain r1 s1 where 1: "run_state (freeze_app pid q) s = (r1, s1)" by fastforce
  note st1 = freeze_app_steps [OF assms(1) 1]
  show ?thesis
  proof (cases "r1 = 0")
    case False
    then have "run_state (freeze_checkpoint_unfreeze pid flags signal q) s = (r1, s1)"
      using 1 by (simp add: freeze_checkpoint_unfreeze_def)
    then show ?thesis using st1 False 1 unfolding stepped_def by auto
  next
    case True
    then obtain f where f: "conf s s1" "app_calls (trace s1) = app_calls (trace s) @ [(KSYS_APP_FREEZE, f, 0)]"
      using st1 by (auto simp: stepped_def)
    obtain r2 s2 where 2: "run_state (checkpoint_app pid flags q) s1 = (r2, s2)" by fastforce
    have o1: "can_open s1" using assms(1) can_open_conf f(1) by blast
    note st2 = checkpoint_app_steps [OF o1 2]
    have c2: "conf s s2" using st2 f(1) conf_trans by (auto simp: stepped_def)
    let ?g = "if r2 = 0 then signal else 0"
    obtain r3 s3 where 3: "run_state (unfreeze_app pid ?g (if r2 = 0 then q else True)) s2 = (r3, s3)" by fastforce
    have o2: "can_open s2" "app_action_of s2 = ALL_STEPS" using assms(1,2) c2 by (auto simp: conf_def can_open_def)
    have nc: "\<not> no_callbacks s2" using assms(3) c2 by (simp add: stuck_def conf_def)
    have "fst (run_state (cr_execute_continue_callbacks pid (from_appid s2)) t) \<noteq> 0" if "conf s2 t" for t
      using continue_stuck [OF assms(1,3)] conf_trans [OF c2 that] .
    then have u: "app_calls (trace s3) = app_calls (trace s2)" "r3 \<noteq> 0"
      using unfreeze_app_steps [OF o2 3] nc by metis+
    have run: "run_state (freeze_checkpoint_unfreeze pid flags signal q) s = (if r2 = 0 then r3 else r2, s3)"
      using 1 2 3 True by (cases "r2 = 0") (simp_all add: freeze_checkpoint_unfreeze_def)
    obtain new2 where n2: "app_calls (trace s2) = app_calls (trace s1) @ new2" "\<forall>c \<in> set new2. fst c = KSYS_APP_CHKPT"
      using st2 unfolding stepped_def by auto
    show ?thesis
      using 1 run u f(2) n2
      by (intro exI [of _ "if r2 = 0 then r3 else r2"] exI [of _ s3] exI [of _ "(KSYS_APP_FREEZE, f, 0) # new2"]) auto
  qed
qed

definition refuses :: "event list \<Rightarrow> req \<Rightarrow> resp" where
  "refuses tr q = (case q of
     Kill _ g \<Rightarrow> Resp (if g = SIG_CB_RUN_CNT then -1 else 0) None NoData
   | Ioctl _ _ _ \<Rightarrow> Resp 0 None (DUser \<lparr>ur_app_id = 40, ur_flags = 0, ur_user_data = 1\<rparr>)
   | _ \<Rightarrow> Resp 0 None NoData)"

theorem continue_failure_leaves_frozen_witness:
  "\<exists>r s' new. run_state (freeze_checkpoint_unfreeze 40 0 9 True) (ckpt_start refuses) = (r, s') \<and> r \<noteq> 0 \<and>
    app_calls (trace s') = new \<and> (\<forall>c \<in> set new. fst c \<noteq> KSYS_APP_UNFREEZE)"
proof -
  have "can_open (ckpt_start refuses)" "app_action_of (ckpt_start refuses) = ALL_STEPS" "stuck (ckpt_start refuses) 40"
      "app_calls (trace (ckpt_start refuses)) = []"
    by (simp_all add: ckpt_start_def refuses_def can_open_def stuck_def app_calls_def services_path_def)
  then show ?thesis using continue_failure_leaves_frozen [of "ckpt_start refuses" 40 0 9 True] by auto
qed

section \<open>Removing a failed checkpoint\<close>

fun removed :: "event list \<Rightarrow> string list" where
  "removed [] = []"
| "removed (Sys (Remove p) r # es) = p # removed es"
| "removed (e # es) = removed es"

lemma removed_append [simp]: "removed (es @ fs) = removed es @ removed fs"
  by (induction es rule: removed.induct) simp_all

definition regular_files :: "checkpoint_info \<Rightarrow> (int \<times> string) list \<Rightarrow> string list" where
  "regular_files info es = map (\<lambda>e. version_dir info @ snd e) (filter (\<lambda>e. fst e = DT_REG) es)"

lemma run_remove_entries:
  "removed (trace (snd (run_state (forM (remove_entry info) es) s))) = removed (trace s) @ regular_files info es"
proof (induction es arbitrary: s)
  case Nil
  then show ?case by (simp add: regular_files_def)
next
  case (Cons e es)
  obtain x s1 where 1: "run_state (remove_entry info e) s = (x, s1)" by (metis surj_pair)
  have "removed (trace s1) = removed (trace s) @ regular_files info [e]"
    using 1 by (auto simp: remove_entry_def sprintf_path_def regular_files_def split: if_splits)
  then show ?case using 1 Cons.IH [of s1] by (simp add: regular_files_def)
qed

lemma keeps_removed: "keeps removed (sprintf_path t)" "keeps removed (refresh_dir t)"
  unfolding sprintf_path_def refresh_dir_def by (intro keeps_intros; simp add: blind_def)+

lemma run_path:
  obtains s' where "run_state (sprintf_path t) s = (t, s')" and "removed (trace s') = removed (trace s)"
  using that by (cases "length t < 256") (auto simp: sprintf_path_def)


end
