(* ===== verification/Restart.thy ===== *)
theory Restart
  imports Callback Hotplug Getopt
begin

text \<open>
  \<^verbatim>\<open>tools/restart.c\<close>: restarting an application from a checkpoint.  The table of file substitutions
  is a block that grows by 32 entries; a write outside it is a \<open>Fault\<close>, and an entry that was never
  assigned is \<open>unset_file\<close>.  The words the tool reads from shell pipelines are answers to \<open>Fread\<close>:
  the text in the buffer up to its first NUL.  The text of \<^verbatim>\<open>strerror\<close> is the error number.
  Functions that end the process return \<open>Inl\<close> of the exit status; \<open>None\<close> is a wait that does not
  end.
\<close>

unbundle bit_operations_syntax

section \<open>State\<close>

record rst = krg +
  appid :: int
  rst_version :: int
  rst_flags :: "32 word"
  root_pid :: int
  options :: "32 word"
  substitution :: cr_subst_files_array
  array_size :: int

definition ARRAY_SIZE_INC :: int where "ARRAY_SIZE_INC = 32"

definition FOREGROUND :: "32 word" where "FOREGROUND = 1"
definition STDIN_OUT_ERR :: "32 word" where "STDIN_OUT_ERR = 2"
definition QUIET :: "32 word" where "QUIET = 4"
definition DEBUG :: "32 word" where "DEBUG = 8"
definition NOUNFREEZE :: "32 word" where "NOUNFREEZE = 16"

definition has_option :: "32 word \<Rightarrow> ('a rst_scheme, bool) state" where
  "has_option f = gets (\<lambda>s. options s AND f \<noteq> 0)"

definition rst_show_version :: "string \<Rightarrow> string \<Rightarrow> ('a os_scheme, unit) state" where
  "rst_show_version VERSION program_name = out_lines
     [program_name @ '' '' @ VERSION,
      ''Copyright (C) 2001-2006, INRIA, Universite de Rennes 1, EDF.'',
      ''Copyright (C) 2010 Kerlabs.'',
      ''This is free software; see source for copying conditions. There is NO'',
      ''warranty; not even for MERCHANBILITY or FITNESS FOR A PARTICULAR PURPOSE.'',
      '''']"

definition rst_show_help :: "string \<Rightarrow> ('a os_scheme, unit) state" where
  "rst_show_help program_name = out_lines
     [''Usage: '' @ program_name @ '' [options] appid version'',
      '''',
      ''Options:'',
      ''  -h|--help                Display this information and exit'',
      ''  -v|--version             Display version information'',
      ''  -U|--no-unfreeze         Leave the application frozen after the restart'',
      ''  -t|--replace-tty         Replace application original terminal by the current one'',
      ''  -f|--foreground          Restart the application in foreground'',
      ''  -p|--pids                Replace application orphan pgrp and sid by the ones of restart'',
      ''  -s|--substitute-file file_id,fd'',
      ''                           Substitute application open files by restart parent fd'']"

section \<open>Words read from commands\<close>

fun strsep_any :: "char list \<Rightarrow> string \<Rightarrow> string" where
  "strsep_any ds [] = []"
| "strsep_any ds (c # cs) = (if c \<in> set ds then [] else c # strsep_any ds cs)"

definition get_returned_word' :: "string \<Rightarrow> ('a rst_scheme, string option) state" where
  "get_returned_word' toexec = do {
     pipe \<leftarrow> syscall (Popen toexec);
     if resp_ret pipe = 0 then do { perror toexec; return None }
     else do {
       blk \<leftarrow> syscall (Malloc 1024);
       w \<leftarrow> (if resp_ret blk = 0
             then do { emit (Err (''restart: '' @ show_int ENOMEM @ ''\<newline>'')); return None }
             else do {
               r \<leftarrow> syscall (Fread (resp_ret pipe));
               let buff = strsep_any [CHR 0x20, CHR 0x0D, CHR 0x0A] (case resp_data r of DStr t \<Rightarrow> t | _ \<Rightarrow> []);
               d \<leftarrow> has_option DEBUG;
               (if d then emit (Out (''DEBUG: execution of:'' @ [CHR 0x0A, CHR 0x09, CHR 0x09, CHR 0x22] @ toexec @
                    [CHR 0x22, CHR 0x0A, CHR 0x09, CHR 0x09] @ ''returns '' @ buff @ ''\<newline>''))
                else return ());
               return (Some buff) });
       syscall (Pclose (resp_ret pipe));
       return w } }"

definition get_returned_word :: "string \<Rightarrow> ('a rst_scheme, string option) state" where
  "get_returned_word cmd = do {
     r \<leftarrow> syscall (Malloc (int (length cmd) + 1));
     if resp_ret r = 0 then return None
     else do { w \<leftarrow> get_returned_word' cmd; free; return w } }"

definition get_fd_key :: "string \<Rightarrow> string \<Rightarrow> int \<Rightarrow> ('a rst_scheme, string option) state" where
  "get_fd_key checkpoint_dir pid fd = get_returned_word
     (''grep -E '' @ [CHR 0x27] @ ''[,|]'' @ pid @ '':'' @ show_int fd @ ''(,|$)'' @ [CHR 0x27] @ '' '' @ checkpoint_dir @
      ''/user_info_*.txt | cut -d'' @ [CHR 0x27] @ ''|'' @ [CHR 0x27] @ '' -f 2'')"

definition get_root_pid :: "string \<Rightarrow> ('a rst_scheme, string option) state" where
  "get_root_pid checkpoint_dir = get_returned_word
     (''grep '' @ [CHR 0x27] @ ''^Identifier:'' @ [CHR 0x27] @ '' '' @ checkpoint_dir @ ''/description.txt | tr -d '' @
      [CHR 0x27, CHR 0x20, CHR 0x0A, CHR 0x27] @ '' | cut -d'' @ [CHR 0x27] @ '':'' @ [CHR 0x27] @ '' -f 2'')"

section \<open>File substitutions\<close>

definition unset_file :: cr_subst_file where
  "unset_file = \<lparr>sf_fd = 0, sf_file_id = []\<rparr>"

definition subst_block :: "cr_subst_files_array \<Rightarrow> cr_subst_file list" where
  "subst_block a = (case sa_files a of Some fs \<Rightarrow> fs | None \<Rightarrow> [])"

text \<open>\<^verbatim>\<open>realloc\<close> keeps the entries and adds unassigned ones; the result is the new size or an error.\<close>

definition inc_substitution_array_size :: "int \<Rightarrow> ('a rst_scheme, int) state" where
  "inc_substitution_array_size sz = do {
     a \<leftarrow> gets substitution;
     if sz < int (sa_nr a) + 1 then do {
       let sz' = sz + ARRAY_SIZE_INC;
       r \<leftarrow> syscall (Realloc (sz' * 16));
       if resp_ret r = 0 then do { perror ''realloc''; return (- ENOMEM) }
       else do {
         modify (\<lambda>s. s\<lparr>substitution := \<lparr>sa_nr = Suc (sa_nr a), sa_files =
           Some (take (nat sz') (subst_block a @ replicate (nat sz' - length (subst_block a)) unset_file))\<rparr>\<rparr>);
         return sz' } }
     else do {
       modify (\<lambda>s. s\<lparr>substitution := a\<lparr>sa_nr := Suc (sa_nr a)\<rparr>\<rparr>);
       return sz } }"

definition set_subst :: "nat \<Rightarrow> cr_subst_file \<Rightarrow> ('a rst_scheme, unit) state" where
  "set_subst i f = do {
     a \<leftarrow> gets substitution;
     if i < length (subst_block a)
     then modify (\<lambda>s. s\<lparr>substitution := a\<lparr>sa_files := Some ((subst_block a)[i := f])\<rparr>\<rparr>)
     else emit Fault }"

text \<open>\<^verbatim>\<open>sscanf\<close> with \<^verbatim>\<open>%a[0-9A-F],%d\<close>: both conversions, or a failure.\<close>

definition is_hex :: "char \<Rightarrow> bool" where
  "is_hex c \<longleftrightarrow> (let n = of_char c :: nat in 48 \<le> n \<and> n \<le> 57 \<or> 65 \<le> n \<and> n \<le> 70)"

definition sscanf_subst :: "string \<Rightarrow> (string \<times> int) option" where
  "sscanf_subst str =
     (let file_id = takeWhile is_hex str in
      case dropWhile is_hex str of
        c # rest \<Rightarrow>
          if file_id \<noteq> [] \<and> c = CHR '','' then
            (case strtol rest 10 of (v, stop) \<Rightarrow> if stop = rest then None else Some (file_id, to_int v))
          else None
      | [] \<Rightarrow> None)"

definition parse_file_substitution :: "string \<Rightarrow> ('a rst_scheme, int) state" where
  "parse_file_substitution fileinfo_str = do {
     i \<leftarrow> gets (sa_nr \<circ> substitution);
     sz \<leftarrow> gets array_size;
     r \<leftarrow> inc_substitution_array_size sz;
     if r < 0 then return r
     else do {
       modify (\<lambda>s. s\<lparr>array_size := r\<rparr>);
       case sscanf_subst fileinfo_str of
         Some (file_id, fd) \<Rightarrow> do { set_subst i \<lparr>sf_fd = fd, sf_file_id = file_id\<rparr>; return 0 }
       | None \<Rightarrow> return (- EINVAL) } }"

definition clean_file_substitution :: "('a rst_scheme, unit) state" where
  "clean_file_substitution = do {
     a \<leftarrow> gets substitution;
     forM (\<lambda>i. if i < length (subst_block a) then free else emit Fault) [0..<sa_nr a] }"

definition replace_fd :: "string \<Rightarrow> string \<Rightarrow> int \<Rightarrow> ('a rst_scheme, int) state" where
  "replace_fd checkpoint_dir root file = do {
     f \<leftarrow> syscall (Fileno file);
     if resp_ret f = -1 then return (- EBADF)
     else do {
       key \<leftarrow> get_fd_key checkpoint_dir root (resp_ret f);
       case key of None \<Rightarrow> return (- ENOENT)
       | Some fd_key \<Rightarrow>
           if length fd_key = 0 then do { free; return (- ENOENT) }
           else do {
             i \<leftarrow> gets (sa_nr \<circ> substitution);
             sz \<leftarrow> gets array_size;
             r \<leftarrow> inc_substitution_array_size sz;
             if r < 0 then do { free; return r }
             else do {
               modify (\<lambda>s. s\<lparr>array_size := r\<rparr>);
               set_subst i \<lparr>sf_fd = resp_ret f, sf_file_id = fd_key\<rparr>;
               d \<leftarrow> has_option DEBUG;
               (if d then emit (Out (''DEBUG: substitution of file '' @ fd_key @ '' by fd '' @ show_int (resp_ret f) @ ''\<newline>''))
                else return ());
               return 0 } } } }"

definition replace_streams :: "string \<Rightarrow> string \<Rightarrow> ('a rst_scheme, int) state" where
  "replace_streams checkpoint_dir root = do {
     r \<leftarrow> replace_fd checkpoint_dir root 0;
     if r \<noteq> 0 then return r
     else do {
       r \<leftarrow> replace_fd checkpoint_dir root 1;
       if r \<noteq> 0 then return r
       else do {
         r \<leftarrow> replace_fd checkpoint_dir root 2;
         if r \<noteq> 0 then return r else do { free; return 0 } } } }"

definition replace_stdin_stdout_stderr :: "string \<Rightarrow> ('a rst_scheme, int) state" where
  "replace_stdin_stdout_stderr checkpoint_dir = do {
     root \<leftarrow> get_root_pid checkpoint_dir;
     r \<leftarrow> (case root of None \<Rightarrow> return (- EINVAL)
       | Some w \<Rightarrow> do {
           d \<leftarrow> has_option DEBUG;
           (if d then emit (Out (''DEBUG: root pid: '' @ w @ ''\<newline>'')) else return ());
           replace_streams checkpoint_dir w });
     (if r \<noteq> 0 then emit (Err (''restart: unable to substitute stdin, stdout, stderr: '' @ show_int (- r) @ ''\<newline>''))
      else return ());
     return r }"

section \<open>Command line\<close>

definition rst_short_options :: short_opts where
  "rst_short_options =
     [(CHR ''h'', no_argument), (CHR ''v'', no_argument), (CHR ''f'', no_argument), (CHR ''t'', no_argument),
      (CHR ''p'', no_argument), (CHR ''s'', required_argument), (CHR ''U'', no_argument), (CHR ''q'', no_argument),
      (CHR ''d'', no_argument)]"

definition rst_long_options :: long_opts where
  "rst_long_options =
     [(''help'', no_argument, CHR ''h''), (''version'', no_argument, CHR ''v''), (''foreground'', no_argument, CHR ''f''),
      (''tty'', no_argument, CHR ''t''), (''pids'', no_argument, CHR ''p''),
      (''substitute-file'', required_argument, CHR ''s''), (''no-unfreeze'', no_argument, CHR ''U''),
      (''quiet'', no_argument, CHR ''q''), (''debug'', no_argument, CHR ''d'')]"

definition add_option :: "32 word \<Rightarrow> ('a rst_scheme, int + unit) state" where
  "add_option f = do { modify (\<lambda>s. s\<lparr>options := options s OR f\<rparr>); return (Inr ()) }"

definition rst_option :: "string \<Rightarrow> string \<Rightarrow> char \<Rightarrow> string option \<Rightarrow> ('a rst_scheme, int + unit) state" where
  "rst_option VERSION program_name c optarg =
     (if c = CHR ''h'' then do { rst_show_help program_name; return (Inl EXIT_SUCCESS) }
      else if c = CHR ''v'' then do { rst_show_version VERSION program_name; return (Inl EXIT_SUCCESS) }
      else if c = CHR ''f'' then add_option (FOREGROUND OR STDIN_OUT_ERR)
      else if c = CHR ''t'' then add_option STDIN_OUT_ERR
      else if c = CHR ''p'' then do {
        modify (\<lambda>s. s\<lparr>rst_flags := rst_flags s OR APP_REPLACE_PGRP_SID\<rparr>);
        return (Inr ()) }
      else if c = CHR ''s'' then do {
        r \<leftarrow> parse_file_substitution (case optarg of Some a \<Rightarrow> a | None \<Rightarrow> []);
        if r \<noteq> 0 then do {
          emit (Err (''restart: fail to parse args: '' @ show_int (- r) @ ''\<newline>''));
          return (Inl EXIT_FAILURE) }
        else return (Inr ()) }
      else if c = CHR ''q'' then add_option QUIET
      else if c = CHR ''d'' then add_option DEBUG
      else if c = CHR ''U'' then add_option NOUNFREEZE
      else do { rst_show_help program_name; return (Inl EXIT_FAILURE) })"

definition rst_parse_args :: "string \<Rightarrow> string \<Rightarrow> string list \<Rightarrow> ('a rst_scheme, int + int) state" where
  "rst_parse_args VERSION program_name args = do {
     let (opts, operands) = getopt_all rst_short_options rst_long_options args;
     p \<leftarrow> opt_loop (rst_option VERSION program_name) opts;
     case p of Inl e \<Rightarrow> return (Inl e)
     | Inr _ \<Rightarrow>
         if length operands \<noteq> 2 then do { rst_show_help program_name; return (Inl EXIT_FAILURE) }
         else do {
           let app = atol (operands ! 0);
           let ver = atoi (operands ! 1);
           modify (\<lambda>s. s\<lparr>appid := app, rst_version := ver\<rparr>);
           let dir = ''/var/chkpt/'' @ show_int app @ ''/v'' @ show_int ver @ ''/'';
           m \<leftarrow> syscall (Malloc (int (length dir) + 1));
           (if resp_ret m = 0 then emit Fault else return ());
           t \<leftarrow> has_option STDIN_OUT_ERR;
           r \<leftarrow> (if t then replace_stdin_stdout_stderr dir else return 0);
           free;
           return (Inr r) } }"

section \<open>Main\<close>

definition rst_show_error :: "int \<Rightarrow> ('a rst_scheme, unit) state" where
  "rst_show_error e = do {
     app \<leftarrow> gets appid;
     if e = E_CR_APPBUSY then
       emit (Err (''restart: an application using appid '' @ show_int app @ '' is already running\<newline>''))
     else if e = E_CR_PIDBUSY then
       emit (Err ''restart: one PID (including session id or group id) of the application is already in use\<newline>'')
     else if e = E_CR_BADDATA then
       emit (Err ''restart: invalid checkpoint files (corrupted or wrong kernel version)\<newline>'')
     else perror ''restart'' }"

definition rst_relay_signal :: "int \<Rightarrow> ('a rst_scheme, unit) state" where
  "rst_relay_signal signum = do {
     p \<leftarrow> gets root_pid;
     if p \<noteq> 0 then do { syscall (Kill p signum); return () } else return () }"

fun wait_loop :: "nat \<Rightarrow> ('a rst_scheme, (int + int) option) state" where
  "wait_loop 0 = return None"
| "wait_loop (Suc n) = do {
     st \<leftarrow> uninit;
     r \<leftarrow> syscall Wait;
     if resp_ret r \<le> 0 \<and> resp_ret r \<noteq> - EINTR
     then do { perror ''wait''; return (Some (Inl EXIT_FAILURE)) }
     else if resp_ret r = - EINTR then wait_loop n
     else return (Some (Inr (case resp_data r of DInt x \<Rightarrow> x | _ \<Rightarrow> st))) }"

definition wait_application_exits :: "nat \<Rightarrow> ('a rst_scheme, (int + unit) option) state" where
  "wait_application_exits n = do {
     r \<leftarrow> syscall (Sigaction 2);
     (if resp_ret r \<noteq> 0 then perror ''sigaction'' else return ());
     r \<leftarrow> syscall (Sigaction 15);
     (if resp_ret r \<noteq> 0 then perror ''sigaction'' else return ());
     w \<leftarrow> wait_loop n;
     return (case w of None \<Rightarrow> None | Some (Inl e) \<Rightarrow> Some (Inl e)
       | Some (Inr exit_status) \<Rightarrow> Some (if exit_status \<noteq> 0 then Inl EXIT_FAILURE else Inr ())) }"

definition rst_check_environment :: "('a krg_scheme, int + unit) state" where
  "rst_check_environment = do {
     ret \<leftarrow> krg_check_hotplug;
     if ret \<noteq> 0 then do { perror ''Kerrighed is not started''; return (Inl EXIT_FAILURE) }
     else do {
       r \<leftarrow> syscall (Stat ''/var/chkpt'');
       if resp_ret r \<noteq> 0 then do { perror ''/var/chkpt''; return (Inl EXIT_FAILURE) }
       else return (Inr ()) } }"

text \<open>Unless it stays frozen the restarted application is unfrozen; the result is that of the call.\<close>

definition rst_unfreeze :: "('a rst_scheme, int) state" where
  "rst_unfreeze = do {
     app \<leftarrow> gets appid;
     nu \<leftarrow> has_option NOUNFREEZE;
     q \<leftarrow> has_option QUIET;
     if \<not> nu then do {
       r \<leftarrow> application_unfreeze_from_appid app 0;
       if r \<noteq> 0 then do {
         e \<leftarrow> gets errno;
         emit (Err (''restart: fail to unfreeze application '' @ show_int app @ '': '' @ show_int e @ ''\<newline>''));
         return r }
       else do {
         (if \<not> q then emit (Out (''Application '' @ show_int app @ '' has been successfully restarted\<newline>'')) else return ());
         return 0 } }
     else do {
       (if \<not> q then emit (Out (''Application '' @ show_int app @ '' has been successfully restored in *FROZEN* state. '' @
           ''You can unfreeze it using '' @ [CHR 0x27] @ ''checkpoint -u'' @ [CHR 0x27, CHR 0x0A])) else return ());
       return 0 } }"

text \<open>After the restart: the restart callbacks, then the unfreeze.\<close>

definition rst_resume :: "int \<Rightarrow> ('a rst_scheme, int) state" where
  "rst_resume r = do {
     modify (\<lambda>s. s\<lparr>root_pid := r\<rparr>);
     app \<leftarrow> gets appid;
     c \<leftarrow> cr_execute_restart_callbacks app;
     if c \<noteq> 0 then do {
       emit (Err (''restart: error during callback execution for application '' @ show_int app @ ''\<newline>''));
       return c }
     else rst_unfreeze }"

definition rst_restart :: "('a rst_scheme, int) state" where
  "rst_restart = do {
     app \<leftarrow> gets appid;
     ver \<leftarrow> gets rst_version;
     flags \<leftarrow> gets rst_flags;
     subst \<leftarrow> gets substitution;
     q \<leftarrow> has_option QUIET;
     (if \<not> q then emit (Out (''Restarting application '' @ show_int app @ '' (v'' @ show_int ver @ '') ...\<newline>''))
      else return ());
     r \<leftarrow> application_restart app ver flags subst;
     if r < 0 then do { e \<leftarrow> gets errno; rst_show_error e; return r }
     else rst_resume r }"

definition rst_finish :: "int \<Rightarrow> ('a rst_scheme, int) state" where
  "rst_finish r = do {
     clean_file_substitution;
     return (if r \<noteq> 0 then EXIT_FAILURE else EXIT_SUCCESS) }"

definition rst_main :: "string \<Rightarrow> nat \<Rightarrow> string \<Rightarrow> string list \<Rightarrow> ('a rst_scheme, int option) state" where
  "rst_main VERSION n program_name args = do {
     p \<leftarrow> rst_parse_args VERSION program_name args;
     case p of Inl e \<Rightarrow> return (Some e)
     | Inr r \<Rightarrow>
         if r \<noteq> 0 then do { x \<leftarrow> rst_finish r; return (Some x) }
         else do {
           env \<leftarrow> rst_check_environment;
           case env of Inl e \<Rightarrow> return (Some e)
           | Inr _ \<Rightarrow> do {
               r \<leftarrow> rst_restart;
               fg \<leftarrow> has_option FOREGROUND;
               if r = 0 \<and> fg then do {
                 w \<leftarrow> wait_application_exits n;
                 case w of None \<Rightarrow> return None | Some (Inl e) \<Rightarrow> return (Some e)
                 | Some (Inr _) \<Rightarrow> do { x \<leftarrow> rst_finish 0; return (Some x) } }
               else do { x \<leftarrow> rst_finish r; return (Some x) } } } }"

section \<open>The table of substitutions\<close>

text \<open>
  The table is well formed: the block has the recorded size, a multiple of the increment, and the
  entries in use fit it.
\<close>

definition subst_wf :: "'a rst_scheme \<Rightarrow> bool" where
  "subst_wf s \<longleftrightarrow> int (length (subst_block (substitution s))) = array_size s \<and>
     int (sa_nr (substitution s)) \<le> array_size s \<and> ARRAY_SIZE_INC dvd array_size s"

definition entries :: "'a rst_scheme \<Rightarrow> cr_subst_file list" where
  "entries s = take (sa_nr (substitution s)) (subst_block (substitution s))"

lemma after_rst [simp]:
  "substitution (after q s) = substitution s" "array_size (after q s) = array_size s" "options (after q s) = options s"
  "appid (after q s) = appid s" "rst_version (after q s) = rst_version s" "rst_flags (after q s) = rst_flags s"
  by (simp_all add: after_def Let_def)

definition can_grow :: "'a os_scheme \<Rightarrow> bool" where
  "can_grow s \<longleftrightarrow> (\<forall>tr n. resp_ret (answers s tr (Realloc n)) \<noteq> 0)"

text \<open>Making room for one more entry: the table is as before and memory ran out, or there is room.\<close>

lemma run_inc:
  assumes "subst_wf s"
  shows "\<exists>r s'. run_state (inc_substitution_array_size (array_size s)) s = (r, s') \<and> answers s' = answers s \<and>
    faults (trace s') = faults (trace s) \<and> array_size s' = array_size s \<and>
    (if r < 0 then \<not> can_grow s \<and> substitution s' = substitution s
     else sa_nr (substitution s') = Suc (sa_nr (substitution s)) \<and> int (length (subst_block (substitution s'))) = r \<and>
       int (Suc (sa_nr (substitution s))) \<le> r \<and> ARRAY_SIZE_INC dvd r \<and>
       take (sa_nr (substitution s)) (subst_block (substitution s')) = entries s)"
proof (cases "array_size s < int (sa_nr (substitution s)) + 1")
  case False
  then show ?thesis using assms
    by (auto simp: inc_substitution_array_size_def subst_wf_def entries_def subst_block_def)
next
  case True
  let ?sz = "array_size s + ARRAY_SIZE_INC"
  let ?q = "Realloc (?sz * 16)"
  show ?thesis
  proof (cases "resp_ret (answers s (trace s) ?q) = 0")
    case z: True
    then have "\<not> can_grow s" by (auto simp: can_grow_def)
    then show ?thesis using True z by (simp add: inc_substitution_array_size_def Let_def faults_def)
  next
    case nz: False
    have w: "int (length (subst_block (substitution s))) = array_size s" "int (sa_nr (substitution s)) = array_size s"
        "ARRAY_SIZE_INC dvd array_size s"
      using assms True by (auto simp: subst_wf_def)
    then have l: "length (subst_block (substitution s)) = sa_nr (substitution s)" "0 \<le> array_size s"
        "nat ?sz = sa_nr (substitution s) + 32"
      by (auto simp: ARRAY_SIZE_INC_def)
    then show ?thesis using True nz w
      by (auto simp: inc_substitution_array_size_def Let_def faults_def subst_block_def [of "_ :: cr_subst_files_array"]
        entries_def ARRAY_SIZE_INC_def)
  qed
qed

lemma run_add_entry:
  assumes "sa_nr (substitution s) = Suc i" and "int (length (subst_block (substitution s))) = array_size s"
    and "int (Suc i) \<le> array_size s" and "ARRAY_SIZE_INC dvd array_size s"
  shows "\<exists>s'. run_state (set_subst i f) s = ((), s') \<and> subst_wf s' \<and> answers s' = answers s \<and> trace s' = trace s \<and>
    options s' = options s \<and> entries s' = take i (subst_block (substitution s)) @ [f]"
proof -
  let ?s' = "s\<lparr>substitution := (substitution s)\<lparr>sa_files := Some ((subst_block (substitution s))[i := f])\<rparr>\<rparr>"
  have i: "i < length (subst_block (substitution s))" using assms(2,3) by linarith
  have b: "subst_block ((substitution s)\<lparr>sa_files := Some xs\<rparr>) = xs" for xs by (simp add: subst_block_def)
  have "entries ?s' = take i (subst_block (substitution s)) @ [f]"
    using i assms(1) by (simp add: entries_def b take_Suc_conv_app_nth)
  moreover have "subst_wf ?s'" using assms by (simp add: subst_wf_def b)
  ultimately show ?thesis using i by (simp add: set_subst_def)
qed

definition file_of :: "string \<times> int \<Rightarrow> cr_subst_file" where
  "file_of x = \<lparr>sf_fd = snd x, sf_file_id = fst x\<rparr>"

lemma run_parse_subst:
  assumes "subst_wf s"
  shows "\<exists>r s'. run_state (parse_file_substitution str) s = (r, s') \<and> subst_wf s' \<and> answers s' = answers s \<and>
    faults (trace s') = faults (trace s) \<and>
    (if r = 0 then \<exists>x. sscanf_subst str = Some x \<and> entries s' = entries s @ [file_of x]
     else sscanf_subst str = None \<or> \<not> can_grow s)"
proof -
  let ?i = "sa_nr (substitution s)"
  obtain r s1 where 1: "run_state (inc_substitution_array_size (array_size s)) s = (r, s1)" "answers s1 = answers s"
      "faults (trace s1) = faults (trace s)" "array_size s1 = array_size s"
    and c: "if r < 0 then \<not> can_grow s \<and> substitution s1 = substitution s
     else sa_nr (substitution s1) = Suc ?i \<and> int (length (subst_block (substitution s1))) = r \<and>
       int (Suc ?i) \<le> r \<and> ARRAY_SIZE_INC dvd r \<and> take ?i (subst_block (substitution s1)) = entries s"
    using run_inc [OF assms] by blast
  show ?thesis
  proof (cases "r < 0")
    case True
    then have "run_state (parse_file_substitution str) s = (r, s1)"
      using 1(1) by (simp add: parse_file_substitution_def comp_def)
    moreover have "subst_wf s1" using assms c True 1(4) by (simp add: subst_wf_def)
    ultimately show ?thesis using True c 1 by simp
  next
    case False
    let ?s2 = "s1\<lparr>array_size := r\<rparr>"
    have w: "sa_nr (substitution ?s2) = Suc ?i" "int (length (subst_block (substitution ?s2))) = array_size ?s2"
        "int (Suc ?i) \<le> array_size ?s2" "ARRAY_SIZE_INC dvd array_size ?s2"
      using c False by simp_all
    show ?thesis
    proof (cases "sscanf_subst str")
      case None
      then have "run_state (parse_file_substitution str) s = (- EINVAL, ?s2)"
        using 1(1) False by (simp add: parse_file_substitution_def comp_def)
      moreover have "subst_wf ?s2" using w by (simp add: subst_wf_def)
      ultimately show ?thesis using None 1 by simp
    next
      case (Some x)
      obtain s3 where 3: "run_state (set_subst ?i (file_of x)) ?s2 = ((), s3)" "subst_wf s3" "answers s3 = answers ?s2"
          "trace s3 = trace ?s2" "entries s3 = take ?i (subst_block (substitution ?s2)) @ [file_of x]"
        using run_add_entry [OF w] by blast
      have "run_state (parse_file_substitution str) s = (0, s3)"
        using 1(1) 3(1) False Some by (cases x) (simp add: parse_file_substitution_def comp_def file_of_def)
      then show ?thesis using 1 3 Some c False by simp
    qed
  qed
qed

lemma run_subst_option:
  assumes "subst_wf s"
  shows "\<exists>p s'. run_state (rst_option VERSION program_name (CHR ''s'') (Some a)) s = (p, s') \<and> subst_wf s' \<and>
    answers s' = answers s \<and> faults (trace s') = faults (trace s) \<and>
    (case p of Inr _ \<Rightarrow> \<exists>x. sscanf_subst a = Some x \<and> entries s' = entries s @ [file_of x]
     | Inl e \<Rightarrow> e = EXIT_FAILURE \<and> (sscanf_subst a = None \<or> \<not> can_grow s))"
proof -
  obtain r s1 where 1: "run_state (parse_file_substitution a) s = (r, s1)" "subst_wf s1" "answers s1 = answers s"
      "faults (trace s1) = faults (trace s)"
    and c: "if r = 0 then \<exists>x. sscanf_subst a = Some x \<and> entries s1 = entries s @ [file_of x]
     else sscanf_subst a = None \<or> \<not> can_grow s"
    using run_parse_subst [OF assms] by blast
  show ?thesis
  proof (cases "r = 0")
    case True
    then show ?thesis using 1 c by (intro exI [of _ "Inr ()"] exI [of _ s1]) (simp add: rst_option_def)
  next
    case False
    let ?s' = "s1\<lparr>trace := trace s1 @ [Err (''restart: fail to parse args: '' @ show_int (- r) @ ''\<newline>'')]\<rparr>"
    have "subst_wf ?s'" "faults (trace ?s') = faults (trace s)"
      using 1(2,4) by (simp_all add: subst_wf_def faults_def)
    then show ?thesis
      using False 1(1,3) c by (intro exI [of _ "Inl EXIT_FAILURE"] exI [of _ ?s']) (simp add: rst_option_def)
  qed
qed

text \<open>
  C15.  The options \<^verbatim>\<open>-s\<close> of a command line, any number of them: the table of substitutions stays
  well formed, nothing is written outside it, and the options are accepted only if each of them reads
  as an identifier and a descriptor, in which case the table holds exactly these, appended in order;
  with memory available a refusal means that one of them is malformed.
\<close>

theorem substitutions_collected:
  assumes "subst_wf s"
  shows "\<exists>p s'. run_state (opt_loop (rst_option VERSION program_name) (map (\<lambda>a. (CHR ''s'', Some a)) args)) s = (p, s') \<and>
    subst_wf s' \<and> faults (trace s') = faults (trace s) \<and>
    (case p of Inr _ \<Rightarrow> \<exists>fs. map sscanf_subst args = map Some fs \<and> entries s' = entries s @ map file_of fs
     | Inl e \<Rightarrow> e = EXIT_FAILURE \<and> (None \<in> set (map sscanf_subst args) \<or> \<not> can_grow s))"
  using assms
proof (induction args arbitrary: s)
  case Nil
  then show ?case by simp
next
  case (Cons a args)
  let ?f = "rst_option VERSION program_name" and ?opts = "map (\<lambda>a. (CHR ''s'', Some a))"
  obtain p1 s1 where 1: "run_state (?f (CHR ''s'') (Some a)) s = (p1, s1)" "subst_wf s1" "answers s1 = answers s"
      "faults (trace s1) = faults (trace s)"
    and c: "case p1 of Inr _ \<Rightarrow> \<exists>x. sscanf_subst a = Some x \<and> entries s1 = entries s @ [file_of x]
     | Inl e \<Rightarrow> e = EXIT_FAILURE \<and> (sscanf_subst a = None \<or> \<not> can_grow s)"
    using run_subst_option [OF Cons.prems] by blast
  show ?case
  proof (cases p1)
    case (Inl e)
    then show ?thesis using 1 c by (intro exI [of _ "Inl e"] exI [of _ s1]) auto
  next
    case (Inr u)
    then obtain x where x: "sscanf_subst a = Some x" "entries s1 = entries s @ [file_of x]" using c by auto
    obtain p s2 where 2: "run_state (opt_loop ?f (?opts args)) s1 = (p, s2)" "subst_wf s2"
        "faults (trace s2) = faults (trace s1)"
        "case p of Inr _ \<Rightarrow> \<exists>fs. map sscanf_subst args = map Some fs \<and> entries s2 = entries s1 @ map file_of fs
         | Inl e \<Rightarrow> e = EXIT_FAILURE \<and> (None \<in> set (map sscanf_subst args) \<or> \<not> can_grow s1)"
      using Cons.IH [OF 1(2)] by blast
    have run: "run_state (opt_loop ?f (?opts (a # args))) s = (p, s2)" using 1(1) 2(1) Inr by simp
    have g: "can_grow s1 = can_grow s" using 1(3) by (simp add: can_grow_def)
    have "case p of Inr _ \<Rightarrow> \<exists>fs. map sscanf_subst (a # args) = map Some fs \<and> entries s2 = entries s @ map file_of fs
         | Inl e \<Rightarrow> e = EXIT_FAILURE \<and> (None \<in> set (map sscanf_subst (a # args)) \<or> \<not> can_grow s)"
    proof (cases p)
      case (Inl e)
      then show ?thesis using 2(4) g by auto
    next
      case (Inr v)
      then obtain fs where "map sscanf_subst args = map Some fs" "entries s2 = entries s1 @ map file_of fs"
        using 2(4) by auto
      then show ?thesis using Inr x by (auto intro!: exI [of _ "x # fs"])
    qed
    then show ?thesis using run 2(2,3) 1(4) by auto
  qed
qed

definition rst_start :: "(event list \<Rightarrow> req \<Rightarrow> resp) \<Rightarrow> rst" where
  "rst_start f = \<lparr>answers = f, trace = [], errno = 0, kerrighed_max_nodes = 0, kerrighed_max_clusters = 0, appid = 0,
     rst_version = 0, rst_flags = 0, root_pid = 0, options = 0, substitution = \<lparr>sa_nr = 0, sa_files = None\<rparr>,
     array_size = 0\<rparr>"

definition reallocs :: "event list \<Rightarrow> req \<Rightarrow> resp" where
  "reallocs tr q = (case q of Realloc _ \<Rightarrow> Resp 1 None NoData | _ \<Rightarrow> Resp 0 None NoData)"

theorem substitutions_collected_witness:
  "\<exists>s'. run_state (opt_loop (rst_option ''3'' ''restart'') (map (\<lambda>a. (CHR ''s'', Some a)) [''00FF,4'', ''12,5'']))
      (rst_start reallocs) = (Inr (), s') \<and>
    entries s' = [\<lparr>sf_fd = 4, sf_file_id = ''00FF''\<rparr>, \<lparr>sf_fd = 5, sf_file_id = ''12''\<rparr>]"
proof -
  let ?args = "[''00FF,4'', ''12,5'']"
  have p: "map sscanf_subst ?args = map Some [(''00FF'', 4), (''12'', 5)]" by code_simp
  have s: "subst_wf (rst_start reallocs)" "can_grow (rst_start reallocs)" "entries (rst_start reallocs) = []"
    by (simp_all add: rst_start_def reallocs_def subst_wf_def subst_block_def can_grow_def entries_def)
  from substitutions_collected [OF s(1), of "''3''" "''restart''" ?args] obtain p s' where
    r: "run_state (opt_loop (rst_option ''3'' ''restart'') (map (\<lambda>a. (CHR ''s'', Some a)) ?args)) (rst_start reallocs) = (p, s')"
    and c: "case p of Inr _ \<Rightarrow> \<exists>fs. map sscanf_subst ?args = map Some fs \<and> entries s' = entries (rst_start reallocs) @ map file_of fs
     | Inl e \<Rightarrow> e = EXIT_FAILURE \<and> (None \<in> set (map sscanf_subst ?args) \<or> \<not> can_grow (rst_start reallocs))"
    by blast
  show ?thesis
  proof (cases p)
    case (Inl e)
    then show ?thesis using c p s(2) by auto
  next
    case (Inr u)
    then have "entries s' = map file_of [(''00FF'', 4), (''12'', 5)]" using c p s(3) by auto
    then show ?thesis using r Inr by (intro exI [of _ s']) (simp add: file_of_def)
  qed
qed

section \<open>Restarting\<close>

text \<open>The restart and unfreeze requests of a history, with their results.\<close>

definition rst_calls :: "event list \<Rightarrow> (ksys \<times> kdata \<times> int) list" where
  "rst_calls tr = filter (\<lambda>c. fst c \<in> {KSYS_APP_RESTART, KSYS_APP_UNFREEZE}) (ksys_calls tr)"

lemma rst_calls_append [simp]: "rst_calls (es @ fs) = rst_calls es @ rst_calls fs"
  by (simp add: rst_calls_def)

lemma blind_rst_calls: "(\<And>fd k d. q \<noteq> Ioctl fd k d) \<Longrightarrow> blind rst_calls (Sys q r)"
  by (cases q) (auto simp: blind_def rst_calls_def)

lemma blind_rst_other [simp]: "blind rst_calls (Out t)" "blind rst_calls (Err t)" "blind rst_calls (Perror t e)" "blind rst_calls Fault"
  by (simp_all add: blind_def rst_calls_def)

lemma frame_rst:
  assumes "frame s s'"
  shows "substitution s' = substitution s" and "options s' = options s" and "appid s' = appid s"
    and "rst_version s' = rst_version s" and "rst_flags s' = rst_flags s"
  using assms unfolding frame_def by (cases s; cases s'; simp)+

lemma run_rst_call:
  assumes "can_open s" and "k \<in> {KSYS_APP_RESTART, KSYS_APP_UNFREEZE}"
  shows "\<exists>r d' s'. run_state (call_kerrighed_services k d) s = ((r, d'), s') \<and> frame s s' \<and>
    rst_calls (trace s') = rst_calls (trace s) @ [(k, d, r)]"
proof -
  obtain r d' s' where 1: "run_state (call_kerrighed_services k d) s = ((r, d'), s')" by (metis prod.collapse)
  moreover have "rst_calls (trace s') = rst_calls (trace s) @ [(k, d, r)]"
    using 1 assms by (auto simp: run_call Let_def can_open_def rst_calls_def services_path_def)
  ultimately show ?thesis using framedD [OF framed_call 1] by blast
qed

lemma framed_application_restart: "framed (application_restart app ver flags subst)"
  unfolding application_restart_def subst_invalid_def by (intro framed_intros)

lemma run_application_restart:
  assumes "can_open s" and "run_state (application_restart app ver flags subst) s = (r, s')"
  shows "frame s s' \<and> (rst_calls (trace s') = rst_calls (trace s) \<and> r < 0 \<or>
    (\<exists>q e. rst_calls (trace s') = rst_calls (trace s) @ [(KSYS_APP_RESTART, DRst q, e)] \<and> rr_app_id q = app \<and>
      rr_chkpt_sn q = ver \<and> rr_flags q = flags \<and> rr_substitution q = subst \<and> (e \<noteq> 0 \<longrightarrow> r = e)))"
proof -
  obtain root s1 where 1: "run_state uninit s = (root, s1)" by fastforce
  let ?q = "\<lparr>rr_app_id = app, rr_chkpt_sn = ver, rr_flags = flags, rr_root_pid = root, rr_substitution = subst\<rparr>"
  let ?c = "if sa_nr subst \<noteq> 0
      then do { f \<leftarrow> firstM (subst_invalid (sa_files subst)) [0..<sa_nr subst]; return (f \<noteq> None) }
      else return (sa_files subst \<noteq> None)"
  obtain bad s2 where 2: "run_state ?c s1 = (bad, s2)" by fastforce
  have k: "keeps rst_calls uninit" "keeps rst_calls ?c"
    unfolding subst_invalid_def by (intro keeps_intros blind_rst_calls; simp)+
  have fr: "framed ?c" unfolding subst_invalid_def by (intro framed_intros)
  have f: "frame s s2" using frame_trans [OF framedD [OF framed_uninit 1] framedD [OF fr 2]] .
  have t: "rst_calls (trace s2) = rst_calls (trace s)" using keepsD [OF k(1) 1] keepsD [OF k(2) 2] by simp
  have fin: "frame s s'" using framedD [OF framed_application_restart assms(2)] .
  show ?thesis
  proof (cases bad)
    case True
    then have "r = -1" "trace s' = trace s2" using assms(2) 1 2 by (auto simp: application_restart_def simp del: run_if)
    then show ?thesis using fin t by simp
  next
    case False
    have "can_open s2" using assms(1) can_open_frame [OF f] by simp
    from run_rst_call [OF this, of KSYS_APP_RESTART "DRst ?q"] obtain e d s3 where
      3: "run_state (call_kerrighed_services KSYS_APP_RESTART (DRst ?q)) s2 = ((e, d), s3)"
        "rst_calls (trace s3) = rst_calls (trace s2) @ [(KSYS_APP_RESTART, DRst ?q, e)]" by auto
    have "s' = s3" "e \<noteq> 0 \<longrightarrow> r = e"
      using assms(2) 1 2 3(1) False by (auto simp: application_restart_def simp del: run_if)
    then show ?thesis using fin t 3(2) by auto
  qed
qed

lemma keeps_rst_detect: "keeps rst_calls (cr_detect_callbacks p b)"
proof -
  have "keeps rst_calls (call_kerrighed_services KSYS_APP_GET_USERDATA d)" for d
    by (simp add: keeps_def run_call Let_def rst_calls_def services_path_def)
  then show ?thesis
    unfolding cr_detect_callbacks_def application_get_userdata_from_appid_def application_get_userdata_from_pid_def
      get_userdata_def
    by (intro keeps_intros)
qed

lemma rst_callbacks_quiet:
  assumes "run_state (cr_execute_restart_callbacks p) s = (c, s')"
  shows "frame s s' \<and> rst_calls (trace s') = rst_calls (trace s)"
proof -
  have "framed (cr_execute_restart_callbacks p)" unfolding cr_execute_restart_callbacks_def cr_detect_callbacks_def
    by (intro framed_intros)
  moreover have "keeps rst_calls (cr_execute_restart_callbacks p)" unfolding cr_execute_restart_callbacks_def
    by (intro keeps_intros keeps_rst_detect blind_rst_calls; simp)
  ultimately show ?thesis using framedD keepsD assms by metis
qed

lemma run_rst_unfreeze:
  assumes "can_open s" and "run_state rst_unfreeze s = (r, s')"
  shows "if options s AND NOUNFREEZE \<noteq> 0 then r = 0 \<and> rst_calls (trace s') = rst_calls (trace s)
    else \<exists>i. rst_calls (trace s') = rst_calls (trace s) @ [(KSYS_APP_UNFREEZE, DCkpt i, r)] \<and>
      ci_app_id i = appid s \<and> ci_flags i = 0 \<and> ci_signal i = 0"
proof (cases "options s AND NOUNFREEZE = 0")
  case False
  then show ?thesis using assms(2) by (auto simp: rst_unfreeze_def has_option_def rst_calls_def split: if_splits)
next
  case True
  obtain i s1 where 1: "run_state (freeze_info (appid s) 0 0) s = (i, s1)" by fastforce
  have i: "ci_app_id i = appid s" "ci_flags i = 0" "ci_signal i = 0"
    using 1 by (auto simp: freeze_info_def split: prod.splits)
  have "keeps rst_calls (freeze_info (appid s) 0 0)"
    unfolding freeze_info_def by (intro keeps_intros blind_rst_calls; simp)
  note t1 = keepsD [OF this 1]
  have f1: "frame s s1" using framedD [OF framed_freeze_info 1] .
  have "can_open s1" using assms(1) can_open_frame [OF f1] by simp
  from run_rst_call [OF this, of KSYS_APP_UNFREEZE "DCkpt i"] obtain e d s2 where
    2: "run_state (call_kerrighed_services KSYS_APP_UNFREEZE (DCkpt i)) s1 = ((e, d), s2)"
      "rst_calls (trace s2) = rst_calls (trace s1) @ [(KSYS_APP_UNFREEZE, DCkpt i, e)]" by auto
  have "run_state (application_unfreeze_from_appid (appid s) 0) s = (e, s2)"
    using 1 2(1) by (simp add: application_unfreeze_from_appid_def call_service_def)
  then have "r = e \<and> rst_calls (trace s') = rst_calls (trace s2)"
    using assms(2) True by (auto simp: rst_unfreeze_def has_option_def rst_calls_def split: if_splits)
  then show ?thesis using True t1 2(2) i by auto
qed

lemma run_rst_resume:
  assumes "can_open s" and "run_state (rst_resume r1) s = (r, s')"
  shows "\<exists>new. rst_calls (trace s') = rst_calls (trace s) @ new \<and>
    (new = [] \<and> (r = 0 \<longrightarrow> options s AND NOUNFREEZE \<noteq> 0) \<or>
     (\<exists>i. new = [(KSYS_APP_UNFREEZE, DCkpt i, r)] \<and> options s AND NOUNFREEZE = 0 \<and>
        ci_app_id i = appid s \<and> ci_flags i = 0 \<and> ci_signal i = 0))"
proof -
  let ?s2 = "s\<lparr>root_pid := r1\<rparr>"
  obtain c s3 where 3: "run_state (cr_execute_restart_callbacks (appid s)) ?s2 = (c, s3)" by fastforce
  note cb = rst_callbacks_quiet [OF 3]
  have f3: "options s3 = options s" "appid s3 = appid s" using frame_rst(2,3) [of ?s2 s3] cb by simp_all
  have "can_open ?s2" using assms(1) by (simp add: can_open_def)
  then have o3: "can_open s3" using can_open_frame [of ?s2 s3] cb by simp
  show ?thesis
  proof (cases "c = 0")
    case False
    then have "r = c" "rst_calls (trace s') = rst_calls (trace s3)"
      using assms(2) 3 by (auto simp: rst_resume_def rst_calls_def)
    then show ?thesis using False cb by simp
  next
    case True
    then have "run_state rst_unfreeze s3 = (r, s')" using assms(2) 3 by (simp add: rst_resume_def)
    from run_rst_unfreeze [OF o3 this] show ?thesis using cb f3 by (auto split: if_splits)
  qed
qed



section \<open>Waiting for the application\<close>

text \<open>
  C28.  \<^verbatim>\<open>wait\<close> returns the number of a child or -1.  Waiting for the restarted application therefore
  ends after one call: with success exactly if a child ended with status 0.  A call interrupted by a
  signal that was relayed to the application is not repeated, as the loop means to, but ends the tool
  with a failure while the application still runs.
\<close>

theorem wait_application_exits_once:
  assumes "\<And>tr. -1 \<le> resp_ret (answers s tr Wait)" and "0 < n"
  shows "\<exists>w s'. run_state (wait_application_exits n) s = (Some w, s') \<and>
    (\<exists>tr st. w = (if 0 < resp_ret (answers s tr Wait) \<and>
        (case resp_data (answers s tr Wait) of DInt x \<Rightarrow> x | _ \<Rightarrow> st) = 0 then Inr () else Inl EXIT_FAILURE) \<and>
      Sys Wait (answers s tr Wait) \<in> set (drop (length (trace s)) (trace s')))"
proof -
  obtain m where n: "n = Suc m" using assms(2) by (cases n) auto
  let ?h = "do { r \<leftarrow> syscall (Sigaction 2); (if resp_ret r \<noteq> 0 then perror ''sigaction'' else return ());
     r \<leftarrow> syscall (Sigaction 15); (if resp_ret r \<noteq> 0 then perror ''sigaction'' else return ()) }"
  obtain x1 s1 where 1: "run_state ?h s = (x1, s1)" by (metis surj_pair)
  have "framed ?h" by (intro framed_intros)
  note f1 = framedD [OF this 1]
  let ?s2 = "after Uninit s1"
  let ?a = "answers s (trace ?s2) Wait"
  let ?st = "case resp_data ?a of DInt x \<Rightarrow> x | _ \<Rightarrow> resp_ret (answers s (trace s1) Uninit)"
  have a: "answers s1 = answers s" "\<exists>es. trace s1 = trace s @ es" using f1 by (auto simp: frame_def)
  have w: "\<exists>s3 es. run_state (wait_loop n) s1 =
      (Some (if resp_ret ?a \<le> 0 then Inl EXIT_FAILURE else Inr ?st), s3) \<and>
      trace s3 = trace s1 @ [Sys Uninit (answers s (trace s1) Uninit), Sys Wait ?a] @ es"
    using n a(1) assms(1) [of "trace ?s2"] by (auto simp: uninit_def)
  then obtain s3 es where w: "run_state (wait_loop n) s1 = (Some (if resp_ret ?a \<le> 0 then Inl EXIT_FAILURE else Inr ?st), s3)"
      "trace s3 = trace s1 @ [Sys Uninit (answers s (trace s1) Uninit), Sys Wait ?a] @ es" by blast
  have "run_state (wait_application_exits n) s =
      (Some (if 0 < resp_ret ?a \<and> ?st = 0 then Inr () else Inl EXIT_FAILURE), s3)"
    using 1 w(1) by (auto simp: wait_application_exits_def split: if_splits)
  moreover have "Sys Wait ?a \<in> set (drop (length (trace s)) (trace s3))" using a(2) w(2) by auto
  ultimately show ?thesis by blast
qed

definition interrupting :: "event list \<Rightarrow> req \<Rightarrow> resp" where
  "interrupting tr q = (case q of Wait \<Rightarrow> Resp (-1) (Some EINTR) NoData | _ \<Rightarrow> Resp 0 None NoData)"

theorem wait_application_exits_once_witness:
  "\<exists>s'. run_state (wait_application_exits 1) (rst_start interrupting) = (Some (Inl EXIT_FAILURE), s')"
proof -
  have "-1 \<le> resp_ret (answers (rst_start interrupting) tr Wait)" for tr by (simp add: rst_start_def interrupting_def)
  from wait_application_exits_once [OF this, of 1] show ?thesis by (auto simp: rst_start_def interrupting_def)
qed

end
