(* ===== verification/Ipc_Tools.thy ===== *)
theory Ipc_Tools
  imports Libproc Getopt
begin

text \<open>
  \<^verbatim>\<open>tools/ipccheckpoint.c\<close> and \<^verbatim>\<open>tools/ipcrestart.c\<close>: saving an IPC object to a file and restoring one
  from it.  The text of \<^verbatim>\<open>strerror\<close> is the error number.  Functions that end the process return
  \<open>Inl\<close> of the exit status.
\<close>

section \<open>Saving\<close>

datatype ipctype = UNDEF | MSG | SEM | SHM

record ipc = os +
  ipc_type :: ipctype
  ipcid :: int

definition ipc_version :: "string \<Rightarrow> string \<Rightarrow> ('a os_scheme, unit) state" where
  "ipc_version VERSION program_name = out_lines
     [program_name @ '' '' @ VERSION,
      ''Copyright (C) 2010 Kerlabs.'',
      ''This is free software; see source for copying conditions. There is NO'',
      ''warranty; not even for MERCHANBILITY or FITNESS FOR A PARTICULAR PURPOSE.'',
      '''']"

definition ipcc_show_help :: "string \<Rightarrow> ('a os_scheme, unit) state" where
  "ipcc_show_help program_name = out_lines
     [''Usage: '' @ program_name @ '' [-h|--help] [-v|--version] {-q|-s|-m} <IPC ID> pathname'',
      ''  -h|--help       Show this information and exit'',
      ''  -v|--version    Show version informations and exit'',
      ''  -q|--queue      for a message queue'',
      ''  -s|--semaphore  for a semaphore array'',
      ''  -m|--memory     for a shared memory segment'']"

definition ipcc_short_options :: short_opts where
  "ipcc_short_options =
     [(CHR ''h'', no_argument), (CHR ''q'', required_argument), (CHR ''s'', required_argument),
      (CHR ''m'', required_argument)]"

definition ipcc_long_options :: long_opts where
  "ipcc_long_options =
     [(''help'', no_argument, CHR ''h''), (''version'', no_argument, CHR ''v''), (''queue'', required_argument, CHR ''q''),
      (''semaphore'', required_argument, CHR ''s''), (''memory'', required_argument, CHR ''m'')]"

definition set_object :: "ipctype \<Rightarrow> string option \<Rightarrow> ('a ipc_scheme, int + unit) state" where
  "set_object t optarg = do {
     modify (\<lambda>s. s\<lparr>ipc_type := t, ipcid := atoi (case optarg of Some a \<Rightarrow> a | None \<Rightarrow> [])\<rparr>);
     return (Inr ()) }"

definition ipcc_option :: "string \<Rightarrow> string \<Rightarrow> char \<Rightarrow> string option \<Rightarrow> ('a ipc_scheme, int + unit) state" where
  "ipcc_option VERSION program_name c optarg =
     (if c = CHR ''h'' then do { ipcc_show_help program_name; return (Inl EXIT_SUCCESS) }
      else if c = CHR ''v'' then do { ipc_version VERSION program_name; return (Inl EXIT_SUCCESS) }
      else if c = CHR ''q'' then set_object MSG optarg
      else if c = CHR ''s'' then set_object SEM optarg
      else if c = CHR ''m'' then set_object SHM optarg
      else do { ipcc_show_help program_name; return (Inl EXIT_FAILURE) })"

definition report_failure :: "string \<Rightarrow> int \<Rightarrow> ('a os_scheme, int) state" where
  "report_failure what r = do {
     (if r \<noteq> 0 then do { e \<leftarrow> gets errno; emit (Err (what @ '': '' @ show_int e @ ''\<newline>'')) } else return ());
     return r }"

definition msgq_checkpoint :: "int \<Rightarrow> int \<Rightarrow> ('a os_scheme, int) state" where
  "msgq_checkpoint oid fd = do { r \<leftarrow> ipc_msgq_checkpoint oid fd; report_failure ''ipc_msgq_checkpoint'' r }"

definition sem_checkpoint :: "int \<Rightarrow> int \<Rightarrow> ('a os_scheme, int) state" where
  "sem_checkpoint oid fd = do { r \<leftarrow> ipc_sem_checkpoint oid fd; report_failure ''ipc_sem_checkpoint'' r }"

definition shm_checkpoint :: "int \<Rightarrow> int \<Rightarrow> ('a os_scheme, int) state" where
  "shm_checkpoint oid fd = do { r \<leftarrow> ipc_shm_checkpoint oid fd; report_failure ''ipc_shm_checkpoint'' r }"

definition open_failed :: "string \<Rightarrow> ('a os_scheme, int) state" where
  "open_failed path = do {
     e \<leftarrow> gets errno;
     emit (Err (path @ '': '' @ show_int e @ ''\<newline>''));
     return EXIT_FAILURE }"

definition ipcc_save :: "string \<Rightarrow> string \<Rightarrow> ('a ipc_scheme, int) state" where
  "ipcc_save program_name path = do {
     fd \<leftarrow> syscall (Open path 193 384);
     if resp_ret fd = -1 then open_failed path
     else do {
       t \<leftarrow> gets ipc_type;
       oid \<leftarrow> gets ipcid;
       r \<leftarrow> (case t of
              MSG \<Rightarrow> do { r \<leftarrow> msgq_checkpoint oid (resp_ret fd); return (Inr r) }
            | SEM \<Rightarrow> do { r \<leftarrow> sem_checkpoint oid (resp_ret fd); return (Inr r) }
            | SHM \<Rightarrow> do { r \<leftarrow> shm_checkpoint oid (resp_ret fd); return (Inr r) }
            | UNDEF \<Rightarrow> do { ipcc_show_help program_name; return (Inl EXIT_FAILURE) });
       case r of Inl e \<Rightarrow> return e
       | Inr r \<Rightarrow> do {
           syscall (Close (resp_ret fd));
           if r \<noteq> 0 then do { syscall (Unlink path); return EXIT_FAILURE }
           else return EXIT_SUCCESS } } }"

definition ipccheckpoint_main :: "string \<Rightarrow> string \<Rightarrow> string list \<Rightarrow> ('a ipc_scheme, int) state" where
  "ipccheckpoint_main VERSION program_name args = do {
     let (opts, operands) = getopt_all ipcc_short_options ipcc_long_options args;
     p \<leftarrow> opt_loop (ipcc_option VERSION program_name) opts;
     case p of Inl e \<Rightarrow> return e
     | Inr _ \<Rightarrow> do {
         t \<leftarrow> gets ipc_type;
         if t = UNDEF \<or> length operands \<noteq> 1 then do { ipcc_show_help program_name; return EXIT_FAILURE }
         else ipcc_save program_name (hd operands) } }"

section \<open>Restoring\<close>

definition ipcr_version :: "string \<Rightarrow> string \<Rightarrow> ('a os_scheme, unit) state" where
  "ipcr_version VERSION program_name = out_lines
     [program_name @ '' '' @ VERSION,
      ''Copyright (C) 2010 Kerlabs.'',
      ''This is free software; see source for copying conditions. There is NO'',
      ''warranty; not even for MERCHANBILITY or FITNESS FOR A PARTICULAR PURPOSE.'',
      '''']"

definition ipcr_show_help :: "string \<Rightarrow> ('a os_scheme, unit) state" where
  "ipcr_show_help program_name = out_lines
     [''Usage: '' @ program_name @ '' [-h|--help] [-v|--version] {-q|-s|-m} pathname'',
      ''  -h|--help       Show this information and exit'',
      ''  -v|--version    Show version informations and exit'',
      ''  -q|--queue      for a message queue'',
      ''  -s|--semaphore  for a semaphore array'',
      ''  -m|--memory     for a shared memory segment'']"

definition ipcr_short_options :: short_opts where
  "ipcr_short_options =
     [(CHR ''h'', no_argument), (CHR ''q'', no_argument), (CHR ''s'', no_argument), (CHR ''m'', no_argument)]"

definition ipcr_long_options :: long_opts where
  "ipcr_long_options =
     [(''help'', no_argument, CHR ''h''), (''version'', no_argument, CHR ''v''), (''queue'', no_argument, CHR ''q''),
      (''semaphore'', no_argument, CHR ''s''), (''memory'', no_argument, CHR ''m'')]"

definition ipcr_option :: "string \<Rightarrow> string \<Rightarrow> char \<Rightarrow> string option \<Rightarrow> ('a ipc_scheme, int + unit) state" where
  "ipcr_option VERSION program_name c optarg =
     (if c = CHR ''h'' then do { ipcr_show_help program_name; return (Inl EXIT_SUCCESS) }
      else if c = CHR ''v'' then do { ipcr_version VERSION program_name; return (Inl EXIT_SUCCESS) }
      else if c = CHR ''q'' then do { modify (\<lambda>s. s\<lparr>ipc_type := MSG\<rparr>); return (Inr ()) }
      else if c = CHR ''s'' then do { modify (\<lambda>s. s\<lparr>ipc_type := SEM\<rparr>); return (Inr ()) }
      else if c = CHR ''m'' then do { modify (\<lambda>s. s\<lparr>ipc_type := SHM\<rparr>); return (Inr ()) }
      else do { ipcr_show_help program_name; return (Inl EXIT_FAILURE) })"

definition msgq_restart :: "int \<Rightarrow> ('a os_scheme, int) state" where
  "msgq_restart fd = do { r \<leftarrow> ipc_msgq_restart fd; report_failure ''ipc_msgq_restart'' r }"

definition sem_restart :: "int \<Rightarrow> ('a os_scheme, int) state" where
  "sem_restart fd = do { r \<leftarrow> ipc_sem_restart fd; report_failure ''ipc_sem_restart'' r }"

definition shm_restart :: "int \<Rightarrow> ('a os_scheme, int) state" where
  "shm_restart fd = do { r \<leftarrow> ipc_shm_restart fd; report_failure ''ipc_shm_restart'' r }"

definition ipcr_load :: "string \<Rightarrow> string \<Rightarrow> ('a ipc_scheme, int) state" where
  "ipcr_load program_name path = do {
     fd \<leftarrow> syscall (Open path O_RDONLY 384);
     if resp_ret fd = -1 then open_failed path
     else do {
       t \<leftarrow> gets ipc_type;
       r \<leftarrow> (case t of
              MSG \<Rightarrow> do { r \<leftarrow> msgq_restart (resp_ret fd); return (Inr r) }
            | SEM \<Rightarrow> do { r \<leftarrow> sem_restart (resp_ret fd); return (Inr r) }
            | SHM \<Rightarrow> do { r \<leftarrow> shm_restart (resp_ret fd); return (Inr r) }
            | UNDEF \<Rightarrow> do { ipcr_show_help program_name; return (Inl EXIT_FAILURE) });
       case r of Inl e \<Rightarrow> return e
       | Inr r \<Rightarrow> do {
           syscall (Close (resp_ret fd));
           return (if r \<noteq> 0 then EXIT_FAILURE else EXIT_SUCCESS) } } }"

definition ipcrestart_main :: "string \<Rightarrow> string \<Rightarrow> string list \<Rightarrow> ('a ipc_scheme, int) state" where
  "ipcrestart_main VERSION program_name args = do {
     let (opts, operands) = getopt_all ipcr_short_options ipcr_long_options args;
     p \<leftarrow> opt_loop (ipcr_option VERSION program_name) opts;
     case p of Inl e \<Rightarrow> return e
     | Inr _ \<Rightarrow> do {
         t \<leftarrow> gets ipc_type;
         if t = UNDEF \<or> length operands \<noteq> 1 then do { ipcr_show_help program_name; return EXIT_FAILURE }
         else ipcr_load program_name (hd operands) } }"

section \<open>Files created and removed\<close>

fun created :: "event list \<Rightarrow> string list" where
  "created [] = []"
| "created (Sys (Open p f m) r # es) = (if f = 193 \<and> resp_ret r \<noteq> -1 then [p] else []) @ created es"
| "created (e # es) = created es"

fun unlinked :: "event list \<Rightarrow> string list" where
  "unlinked [] = []"
| "unlinked (Sys (Unlink p) r # es) = p # unlinked es"
| "unlinked (e # es) = unlinked es"

lemma created_append [simp]: "created (es @ fs) = created es @ created fs"
  by (induction es rule: created.induct) simp_all

lemma unlinked_append [simp]: "unlinked (es @ fs) = unlinked es @ unlinked fs"
  by (induction es rule: unlinked.induct) simp_all

text \<open>Everything about files and descriptors that a history shows.\<close>

definition file_view :: "event list \<Rightarrow> string list \<times> string list \<times> int" where
  "file_view tr = (created tr, unlinked tr, open_fds tr)"

lemma keeps_service_view: "keeps file_view (call_service k d)"
  by (simp add: keeps_def call_service_def run_call Let_def file_view_def services_path_def)

lemma blind_texts [simp]: "blind file_view (Out t)" "blind file_view (Err t)"
  by (simp_all add: blind_def file_view_def)

lemma keeps_report: "keeps file_view (report_failure w r)"
  unfolding report_failure_def by (intro keeps_intros; simp)

lemma keeps_objects:
  "keeps file_view (msgq_checkpoint oid fd)" "keeps file_view (sem_checkpoint oid fd)" "keeps file_view (shm_checkpoint oid fd)"
  "keeps file_view (msgq_restart fd)" "keeps file_view (sem_restart fd)" "keeps file_view (shm_restart fd)"
  unfolding msgq_checkpoint_def sem_checkpoint_def shm_checkpoint_def msgq_restart_def sem_restart_def shm_restart_def
    ipc_msgq_checkpoint_def ipc_sem_checkpoint_def ipc_shm_checkpoint_def ipc_msgq_restart_def ipc_sem_restart_def
    ipc_shm_restart_def
  by (intro keeps_intros keeps_service_view keeps_report)+

lemma keeps_ipc_options: "keeps file_view (ipcc_option V p c a)" "keeps file_view (ipcr_option V p c a)"
  unfolding ipcc_option_def ipcr_option_def ipcc_show_help_def ipcr_show_help_def ipc_version_def ipcr_version_def set_object_def
  by (intro keeps_intros keeps_modify; simp)+

lemma run_ipcc_save:
  assumes "ipc_type s \<noteq> UNDEF"
  shows "\<exists>r s' c. run_state (ipcc_save p path) s = (r, s') \<and> open_fds (trace s') = open_fds (trace s) \<and>
    created (trace s') = created (trace s) @ c \<and> unlinked (trace s') = unlinked (trace s) @ (if r = EXIT_SUCCESS then [] else c)"
proof -
  let ?q = "Open path 193 384"
  let ?fd = "resp_ret (answers s (trace s) ?q)"
  let ?s1 = "after ?q s"
  have "os.more ?s1 = os.more s" by simp
  then have t: "ipc_type ?s1 = ipc_type s" "ipcid ?s1 = ipcid s" by (cases s; cases ?s1; simp)+
  show ?thesis
  proof (cases "?fd = -1")
    case True
    then show ?thesis by (simp add: ipcc_save_def open_failed_def)
  next
    case False
    let ?m = "case ipc_type s of MSG \<Rightarrow> msgq_checkpoint (ipcid s) ?fd | SEM \<Rightarrow> sem_checkpoint (ipcid s) ?fd
       | SHM \<Rightarrow> shm_checkpoint (ipcid s) ?fd"
    obtain r s2 where 2: "run_state ?m ?s1 = (r, s2)" by fastforce
    have "keeps file_view ?m" using assms by (cases "ipc_type s") (simp_all add: keeps_objects)
    from keepsD [OF this 2] have v: "file_view (trace s2) = file_view (trace ?s1)" .
    have "run_state (ipcc_save p path) s = (if r \<noteq> 0 then (EXIT_FAILURE, after (Unlink path) (after (Close ?fd) s2))
        else (EXIT_SUCCESS, after (Close ?fd) s2))"
      using False 2 t assms by (cases "ipc_type s") (simp_all add: ipcc_save_def)
    then show ?thesis using v False by (cases "r = 0") (simp_all add: file_view_def)
  qed
qed

text \<open>
  C12.  Whatever the command line and the environment, \<^verbatim>\<open>ipccheckpoint\<close> closes every descriptor it
  opens, removes no file but the one it has just created itself, and removes that one exactly when it
  fails: a checkpoint file is left behind only if it is complete.
\<close>

theorem ipccheckpoint_no_leftovers:
  "\<exists>r s' c. run_state (ipccheckpoint_main VERSION program_name args) s = (r, s') \<and>
    open_fds (trace s') = open_fds (trace s) \<and> created (trace s') = created (trace s) @ c \<and>
    unlinked (trace s') = unlinked (trace s) @ (if r = EXIT_SUCCESS then [] else c)"
proof -
  obtain opts operands where g: "getopt_all ipcc_short_options ipcc_long_options args = (opts, operands)" by fastforce
  obtain x s1 where 1: "run_state (opt_loop (ipcc_option VERSION program_name) opts) s = (x, s1)" by fastforce
  have "keeps file_view (opt_loop (ipcc_option VERSION program_name) opts)" by (intro keeps_intros keeps_ipc_options)
  from keepsD [OF this 1] have v: "created (trace s1) = created (trace s)" "unlinked (trace s1) = unlinked (trace s)"
      "open_fds (trace s1) = open_fds (trace s)" by (simp_all add: file_view_def)
  show ?thesis
  proof (cases x)
    case (Inl e)
    then show ?thesis using g 1 v by (simp add: ipccheckpoint_main_def)
  next
    case (Inr u)
    show ?thesis
    proof (cases "ipc_type s1 = UNDEF \<or> length operands \<noteq> 1")
      case True
      then show ?thesis using g 1 v Inr by (auto simp: ipccheckpoint_main_def ipcc_show_help_def out_lines_def)
    next
      case False
      then have "run_state (ipccheckpoint_main VERSION program_name args) s = run_state (ipcc_save program_name (hd operands)) s1"
        using g 1 Inr by (simp add: ipccheckpoint_main_def)
      then show ?thesis using run_ipcc_save [of s1 program_name "hd operands"] False v by simp
    qed
  qed
qed

end
