(* ===== verification/Spec2Isabelle.thy ===== *)
theory Spec2Isabelle
  imports Krgadm_Cli Exclusion Launch Checkpoint Restart Ipc_Tools
begin

text \<open>
  Verification of the Kerrighed tools: the C libraries and command line programs with which a node
  of a Kerrighed cluster talks to its kernel.

  \<^bold>\<open>The program.\<close>  The kernel offers its services through ioctl calls on one file.  Above it,
  \<^verbatim>\<open>libs/libkerrighed\<close> wraps each service in a function (service calls, node sets and cluster
  state, processes, IPC objects, capabilities); \<^verbatim>\<open>libs/libkrgcb\<close> lets an application run callbacks
  around a checkpoint and lets a tool trigger them over signals and a message queue;
  \<^verbatim>\<open>libs/libkrgcheckpoint\<close> uses these callbacks to exclude memory from checkpoints.  The tools of
  \<^verbatim>\<open>tools\<close> and \<^verbatim>\<open>tools-host\<close> are command lines over the libraries: \<^verbatim>\<open>krgadm\<close> (nodes and cluster),
  \<^verbatim>\<open>krgcapset\<close> (capabilities), \<^verbatim>\<open>checkpoint\<close> and \<^verbatim>\<open>restart\<close> (applications), \<^verbatim>\<open>ipccheckpoint\<close> and
  \<^verbatim>\<open>ipcrestart\<close> (IPC objects), \<^verbatim>\<open>krgcr-run\<close>, \<^verbatim>\<open>migrate\<close>, \<^verbatim>\<open>krginit\<close> and \<^verbatim>\<open>krgboot\<close> (starting and
  moving processes).

  \<^bold>\<open>How it is modelled.\<close>  A C function is an operation of the state monad, with one definition per
  function and one helper per loop or branch where the function is long.  The state of a process is a
  record that extends \<open>os\<close> of \<^verbatim>\<open>Krg_Os\<close> by the global variables of its sources.  \<open>os\<close> holds the
  environment, an arbitrary function from the history and a request to an answer, and the history
  itself: every system call with its answer, everything printed, and a \<open>Fault\<close> for every access the
  C standard leaves undefined.  So a theorem that does not restrict the environment covers every
  behaviour of kernel, file system, allocator, other processes and arriving signals, and safety and
  ordering properties are statements about the history.  Uninitialised variables are answers of the
  environment.  A function that calls \<^verbatim>\<open>exit\<close> returns the exit status in a sum type.  Integers that
  the sources narrow are narrowed explicitly, flag words and capability vectors are machine words.

  \<^bold>\<open>Theories.\<close>
  \<^item> \<^verbatim>\<open>Krg_Prelude\<close>, \<^verbatim>\<open>C_String\<close>, \<^verbatim>\<open>Getopt\<close>, \<^verbatim>\<open>Krg_Os\<close>: loops of the monad, C strings and numerals,
    the option parser of the C library with the loop around it, the environment, and the frame and
    invariance rules (\<open>framed_intros\<close>, \<open>keeps_intros\<close>) that follow the text of a definition.
  \<^item> \<^verbatim>\<open>Kernel_ABI\<close>: the structures, service numbers and constants of \<^verbatim>\<open>libs/include\<close>.  Ioctl numbers
    are distinct.
  \<^item> \<^verbatim>\<open>Services\<close>: \<^verbatim>\<open>libkerrighed_tools.c\<close>.  A call closes what it opens; the ABI check.
  \<^item> \<^verbatim>\<open>Nodemask\<close>, \<^verbatim>\<open>Node_Set_Spec\<close>, \<^verbatim>\<open>Hotplug\<close>: \<^verbatim>\<open>krgnodemask.h\<close> and \<^verbatim>\<open>libhotplug.c\<close>.
    \<^verbatim>\<open>Node_Set_Spec\<close> states the contract of a node set as a locale and proves iteration over it once;
    \<^verbatim>\<open>Hotplug\<close> interprets it on the arrays of the library, which refine finite sets, and shows what
    the requests to the kernel contain.
  \<^item> \<^verbatim>\<open>Libproc\<close>: \<^verbatim>\<open>libproc.c\<close>, \<^verbatim>\<open>libipc.c\<close>, \<^verbatim>\<open>libcapability.c\<close>.  Truncation of node numbers, validation
    of restart requests.
  \<^item> \<^verbatim>\<open>Krgadm_Parse\<close>, \<^verbatim>\<open>Krgadm\<close>, \<^verbatim>\<open>Krgadm_Cli\<close>: \<^verbatim>\<open>krgadm.c\<close>.  Node lists are read back as printed and
    malformed ones refused; which nodes each command adds or removes, for any answers of the cluster;
    waiting ends with the first table that has enough nodes; exclusive options.
  \<^item> \<^verbatim>\<open>Capset\<close>: \<^verbatim>\<open>krgcapset.c\<close>.  No unconfirmed loss of the right to change capabilities, exactly the
    named vectors change.
  \<^item> \<^verbatim>\<open>Callback\<close>: \<^verbatim>\<open>libkrgcb.c\<close>.  The registry is a locale interpreted on the tables of the library;
    the signal handler and the worker thread are a transition system \<open>cb_step\<close> whose invariant holds
    in every interleaving.
  \<^item> \<^verbatim>\<open>Exclusion\<close>: \<^verbatim>\<open>libkrgcheckpoint.c\<close> over explicit heaps.  The locale \<open>linked\<close> carries both linked
    lists; the exclusions refine an abstract list; the defects of the list of children and of failed
    initialisation are theorems.
  \<^item> \<^verbatim>\<open>Checkpoint\<close>, \<^verbatim>\<open>Restart\<close>: \<^verbatim>\<open>checkpoint.c\<close>, \<^verbatim>\<open>restart.c\<close>.  The order of the requests under every
    interruption, when an application is left frozen, what is removed after a failure, the table of
    file substitutions.
  \<^item> \<^verbatim>\<open>Ipc_Tools\<close>, \<^verbatim>\<open>Launch\<close>: \<^verbatim>\<open>ipccheckpoint.c\<close>, \<^verbatim>\<open>ipcrestart.c\<close>; \<^verbatim>\<open>krgcr-run.c\<close>, \<^verbatim>\<open>migrate.c\<close>,
    \<^verbatim>\<open>krginit.c\<close>, \<^verbatim>\<open>krgboot.c\<close>.  No files left behind, guards before a container is started,
    capabilities before a fork.
  \<^item> This theory: the option forms of the tools, compared with each other.

  \<^bold>\<open>Bounds.\<close>  Loops over data recurse on the data.  Fuel appears where a loop waits for the
  environment or walks memory: polling for nodes (enough when it exceeds the number of polls before the
  awaited table, which the theorems name), reading an answer from the terminal, walking a linked list
  (enough when it is at least the length of the list), waiting for a child (1 is enough, as proved), and
  the reaping loop of \<^verbatim>\<open>krginit\<close>, which by design never ends.

  \<^bold>\<open>Not modelled.\<close>  The kernel and the C library beyond the functions used; the messages the option
  parser prints itself and the texts of \<^verbatim>\<open>strerror\<close> (the number stands for them); debug output that is
  compiled out; flushing of output; the stack handed to \<^verbatim>\<open>clone\<close>.  The test programs, the Python binding,
  the start-up scripts, manual pages and build files are not part of the development.
\<close>

section \<open>Short and long options\<close>

lemma short_form:
  assumes "map_of so c = Some no_argument" and "c \<noteq> CHR ''-''"
  shows "getopt_all so lo ([CHR ''-'', c] # rest) =
    (let (ps, ns) = getopt_all so lo rest in ((c, None) # ps, ns))"
  using assms by (simp add: is_prefix_def)

lemma long_form:
  assumes "find_long lo name = Some (no_argument, c)" and "CHR ''='' \<notin> set name" and "name \<noteq> []"
  shows "getopt_all so lo ((CHR ''-'' # CHR ''-'' # name) # rest) =
    (let (ps, ns) = getopt_all so lo rest in ((c, None) # ps, ns))"
proof -
  have "lo \<noteq> []" using assms(1) by (auto simp: find_long_def)
  then show ?thesis using assms by (simp add: is_prefix_def parse_long_def strsep_notin)
qed

text \<open>The two forms of an option without an argument.\<close>

lemma same_option:
  assumes "map_of so c = Some no_argument" and "c \<noteq> CHR ''-''"
    and "find_long lo name = Some (no_argument, c)" and "CHR ''='' \<notin> set name" and "name \<noteq> []"
  shows "getopt_all so lo ([CHR ''-'', c] # rest) = getopt_all so lo ((CHR ''-'' # CHR ''-'' # name) # rest)"
  by (simp only: short_form [OF assms(1,2)] long_form [OF assms(3,4,5)])

lemma ckpt_forms:
  "getopt_all ckpt_short_options ckpt_long_options (''-h'' # rest) = getopt_all ckpt_short_options ckpt_long_options (''--help'' # rest)"
  "getopt_all ckpt_short_options ckpt_long_options (''-q'' # rest) = getopt_all ckpt_short_options ckpt_long_options (''--quiet'' # rest)"
  "getopt_all ckpt_short_options ckpt_long_options (''-a'' # rest) = getopt_all ckpt_short_options ckpt_long_options (''--from-appid'' # rest)"
  "getopt_all ckpt_short_options ckpt_long_options (''-c'' # rest) = getopt_all ckpt_short_options ckpt_long_options (''--ckpt-only'' # rest)"
  "getopt_all ckpt_short_options ckpt_long_options (''-b'' # rest) = getopt_all ckpt_short_options ckpt_long_options (''--no-callbacks'' # rest)"
  "getopt_all ckpt_short_options ckpt_long_options (''-f'' # rest) = getopt_all ckpt_short_options ckpt_long_options (''--freeze'' # rest)"
  "getopt_all ckpt_short_options ckpt_long_options (''-i'' # rest) = getopt_all ckpt_short_options ckpt_long_options (''--ignore-unsupported-files'' # rest)"
  by (rule same_option; code_simp)+

lemma rst_forms:
  "getopt_all rst_short_options rst_long_options (''-h'' # rest) = getopt_all rst_short_options rst_long_options (''--help'' # rest)"
  "getopt_all rst_short_options rst_long_options (''-v'' # rest) = getopt_all rst_short_options rst_long_options (''--version'' # rest)"
  "getopt_all rst_short_options rst_long_options (''-f'' # rest) = getopt_all rst_short_options rst_long_options (''--foreground'' # rest)"
  "getopt_all rst_short_options rst_long_options (''-t'' # rest) = getopt_all rst_short_options rst_long_options (''--tty'' # rest)"
  "getopt_all rst_short_options rst_long_options (''-p'' # rest) = getopt_all rst_short_options rst_long_options (''--pids'' # rest)"
  "getopt_all rst_short_options rst_long_options (''-U'' # rest) = getopt_all rst_short_options rst_long_options (''--no-unfreeze'' # rest)"
  "getopt_all rst_short_options rst_long_options (''-q'' # rest) = getopt_all rst_short_options rst_long_options (''--quiet'' # rest)"
  "getopt_all rst_short_options rst_long_options (''-d'' # rest) = getopt_all rst_short_options rst_long_options (''--debug'' # rest)"
  by (rule same_option; code_simp)+

lemma ipcr_forms:
  "getopt_all ipcr_short_options ipcr_long_options (''-h'' # rest) = getopt_all ipcr_short_options ipcr_long_options (''--help'' # rest)"
  "getopt_all ipcr_short_options ipcr_long_options (''-q'' # rest) = getopt_all ipcr_short_options ipcr_long_options (''--queue'' # rest)"
  "getopt_all ipcr_short_options ipcr_long_options (''-s'' # rest) = getopt_all ipcr_short_options ipcr_long_options (''--semaphore'' # rest)"
  "getopt_all ipcr_short_options ipcr_long_options (''-m'' # rest) = getopt_all ipcr_short_options ipcr_long_options (''--memory'' # rest)"
  by (rule same_option; code_simp)+

lemma version_forms:
  "getopt_all ckpt_short_options ckpt_long_options [''-v''] = ([(CHR ''?'', None)], [])"
  "getopt_all ckpt_short_options ckpt_long_options [''--version''] = ([(CHR ''v'', None)], [])"
  "getopt_all ipcc_short_options ipcc_long_options [''-v''] = ([(CHR ''?'', None)], [])"
  "getopt_all ipcc_short_options ipcc_long_options [''--version''] = ([(CHR ''v'', None)], [])"
  "getopt_all ipcr_short_options ipcr_long_options [''-v''] = ([(CHR ''?'', None)], [])"
  "getopt_all ipcr_short_options ipcr_long_options [''--version''] = ([(CHR ''v'', None)], [])"
  by code_simp+


end
